theory Spec2Isabelle
  imports Complex_Main "HOL-Library.Word"
begin

section \<open>Strings, bytes and exceptions\<close>

text \<open>
  A Python \<open>str\<close> is a sequence of Unicode code points; slicing and \<open>len\<close> count code
  points. The messages of the program contain CJK text, so a \<open>str\<close> is modelled as a list of
  code points. \<open>bytes\<close> is a list of octets.
\<close>

type_synonym pystr = "nat list"
type_synonym bytes = "8 word list"

definition ascii :: "string \<Rightarrow> pystr" where
  "ascii s = map of_char s"

text \<open>\<open>str(k)\<close> for an integer \<open>k\<close>: decimal digits, with a minus sign when negative.\<close>

fun digits :: "nat \<Rightarrow> pystr" where
  "digits n = (if n < 10 then [48 + n] else digits (n div 10) @ [48 + n mod 10])"

declare digits.simps [simp del]

definition str_int :: "int \<Rightarrow> pystr" where
  "str_int k = (if k < 0 then 45 # digits (nat (- k)) else digits (nat k))"

text \<open>
  The exceptions the probe distinguishes: \<open>subprocess.TimeoutExpired\<close>, caught first, and
  any other \<open>Exception\<close>, of which only \<open>str(e)\<close> is used.
\<close>

datatype exn = TimeoutExpired | OtherException pystr

text \<open>\<open>base64.b64encode\<close>: three octets become four characters, padded with \<open>=\<close>.\<close>

definition b64_alphabet :: string where
  "b64_alphabet = ''ABCDEFGHIJKLMNOPQRSTUVWXYZabcdefghijklmnopqrstuvwxyz0123456789+/''"

definition b64_char :: "nat \<Rightarrow> nat" where
  "b64_char n = of_char (b64_alphabet ! (n mod 64))"

fun b64encode :: "bytes \<Rightarrow> pystr" where
  "b64encode [] = []"
| "b64encode [a] =
     (let n = unat a * 65536
      in [b64_char (n div 262144), b64_char (n div 4096), 61, 61])"
| "b64encode [a, b] =
     (let n = unat a * 65536 + unat b * 256
      in [b64_char (n div 262144), b64_char (n div 4096), b64_char (n div 64), 61])"
| "b64encode (a # b # c # rest) =
     (let n = unat a * 65536 + unat b * 256 + unat c
      in [b64_char (n div 262144), b64_char (n div 4096), b64_char (n div 64), b64_char n]
         @ b64encode rest)"

section \<open>Standard output\<close>

text \<open>
  \<open>print(s)\<close> encodes \<open>s\<close> for the standard output and can raise, for instance
  \<open>UnicodeEncodeError\<close> when the encoding has no place for a code point of \<open>s\<close>. The
  standard output is a function of the printed text: \<open>None\<close> when \<open>print\<close> returns, the
  \<open>str(e)\<close> of the exception when it raises. \<open>print\<close> does not raise
  \<open>subprocess.TimeoutExpired\<close>.
\<close>

type_synonym stdout = "pystr \<Rightarrow> pystr option"

text \<open>\<open>sep.join(xs)\<close>.\<close>

fun str_join :: "pystr \<Rightarrow> pystr list \<Rightarrow> pystr" where
  "str_join sep [] = []"
| "str_join sep [x] = x"
| "str_join sep (x # y # ys) = x @ sep @ str_join sep (y # ys)"

section \<open>Finding the tool: \<open>StreamChecker.get_ffmpeg_path\<close>\<close>

text \<open>
  The outside world of one call: the class attribute \<open>_ffmpeg_path\<close> when the call starts,
  what \<open>shutil.which("ffmpeg")\<close> returns, whether the version check of the system tool
  raises (and the \<open>str(e)\<close> if so), what fetching the bundled tool returns or raises, and
  whether the version check of the bundled tool raises.
\<close>

record tool_lookup =
  cached_path :: "pystr option"
  which_ffmpeg :: "pystr option"
  sys_version :: "pystr option"
  static_fetch :: "pystr + pystr"
  static_version :: "pystr option"

text \<open>The six messages that the function prints.\<close>

definition msg_use_sys :: "pystr \<Rightarrow> pystr" where
  "msg_use_sys sys_ffmpeg =
     ascii ''DEBUG: '' @ [20351, 29992, 31995, 32479] @ ascii '' FFmpeg: '' @ sys_ffmpeg"

definition msg_sys_failed :: "pystr \<Rightarrow> pystr \<Rightarrow> pystr" where
  "msg_sys_failed sys_ffmpeg e =
     ascii ''DEBUG: '' @ [31995, 32479] @ ascii '' FFmpeg ('' @ sys_ffmpeg @ ascii '') ''
     @ [36816, 34892, 22833, 36133] @ ascii '': '' @ e"

definition msg_use_static :: "pystr \<Rightarrow> pystr" where
  "msg_use_static static_ffmpeg =
     ascii ''DEBUG: '' @ [20351, 29992] @ ascii '' static-ffmpeg '' @ [20108, 36827, 21046]
     @ ascii '': '' @ static_ffmpeg"

definition msg_static_failed :: "pystr \<Rightarrow> pystr \<Rightarrow> pystr" where
  "msg_static_failed static_ffmpeg e =
     ascii ''DEBUG: static-ffmpeg '' @ [20108, 36827, 21046] @ ascii '' ('' @ static_ffmpeg
     @ ascii '') '' @ [36816, 34892, 22833, 36133] @ ascii '': '' @ e"

definition msg_fetch_failed :: "pystr \<Rightarrow> pystr" where
  "msg_fetch_failed e =
     ascii ''DEBUG: '' @ [33719, 21462] @ ascii '' static-ffmpeg ''
     @ [20108, 36827, 21046, 22833, 36133] @ ascii '': '' @ e"

definition msg_fallback :: "pystr \<Rightarrow> pystr" where
  "msg_fallback path =
     ascii ''DEBUG: '' @ [26410, 25214, 21040, 26377, 25928] @ ascii '' FFmpeg''
     @ [65292, 20828, 24213, 20351, 29992, 21629, 20196] @ ascii '': '' @ path"

text \<open>
  Every part returns what the call returns or raises, and the class attribute afterwards.
  The last resort: the attribute is set to \<open>ffmpeg\<close>, then the message is printed.
\<close>

definition last_resort :: "stdout \<Rightarrow> (exn + pystr) \<times> pystr option" where
  "last_resort out =
     (case out (msg_fallback (ascii ''ffmpeg'')) of
        Some m \<Rightarrow> (Inl (OtherException m), Some (ascii ''ffmpeg''))
      | None \<Rightarrow> (Inr (ascii ''ffmpeg''), Some (ascii ''ffmpeg'')))"

text \<open>
  The handler of the outer \<open>try\<close> of the second attempt: it prints, and what its
  \<open>print\<close> raises leaves the function.
\<close>

definition fetch_handler :: "stdout \<Rightarrow> pystr \<Rightarrow> pystr option \<Rightarrow> (exn + pystr) \<times> pystr option" where
  "fetch_handler out e attr =
     (case out (msg_fetch_failed e) of
        Some m \<Rightarrow> (Inl (OtherException m), attr)
      | None \<Rightarrow> last_resort out)"

text \<open>
  The second attempt, the bundled tool. The inner handler sits inside the outer \<open>try\<close>,
  so what its \<open>print\<close> raises goes to the outer handler. The attribute is set before the
  success message is printed.
\<close>

definition static_handler ::
  "stdout \<Rightarrow> pystr \<Rightarrow> pystr \<Rightarrow> pystr option \<Rightarrow> (exn + pystr) \<times> pystr option" where
  "static_handler out static_ffmpeg e attr =
     (case out (msg_static_failed static_ffmpeg e) of
        Some m \<Rightarrow> fetch_handler out m attr
      | None \<Rightarrow> last_resort out)"

definition try_static :: "stdout \<Rightarrow> tool_lookup \<Rightarrow> pystr option \<Rightarrow> (exn + pystr) \<times> pystr option" where
  "try_static out t attr =
     (case static_fetch t of
        Inl e \<Rightarrow> fetch_handler out e attr
      | Inr static_ffmpeg \<Rightarrow>
          (case static_version t of
             Some e \<Rightarrow> static_handler out static_ffmpeg e attr
           | None \<Rightarrow>
               (case out (msg_use_static static_ffmpeg) of
                  Some m \<Rightarrow> static_handler out static_ffmpeg m (Some static_ffmpeg)
                | None \<Rightarrow> (Inr static_ffmpeg, Some static_ffmpeg))))"

text \<open>
  The handler of the first attempt is not inside a \<open>try\<close>: what its \<open>print\<close> raises
  leaves the function; otherwise the second attempt follows.
\<close>

definition sys_handler ::
  "stdout \<Rightarrow> tool_lookup \<Rightarrow> pystr \<Rightarrow> pystr \<Rightarrow> pystr option \<Rightarrow> (exn + pystr) \<times> pystr option" where
  "sys_handler out t sys_ffmpeg e attr =
     (case out (msg_sys_failed sys_ffmpeg e) of
        Some m \<Rightarrow> (Inl (OtherException m), attr)
      | None \<Rightarrow> try_static out t attr)"

text \<open>
  The first attempt, the tool on the search path; an empty or missing result of
  \<open>shutil.which\<close> is false and skips it.
\<close>

definition try_system :: "stdout \<Rightarrow> tool_lookup \<Rightarrow> (exn + pystr) \<times> pystr option" where
  "try_system out t =
     (case which_ffmpeg t of
        None \<Rightarrow> try_static out t (cached_path t)
      | Some sys_ffmpeg \<Rightarrow>
          if sys_ffmpeg = [] then try_static out t (cached_path t)
          else (case sys_version t of
                  Some e \<Rightarrow> sys_handler out t sys_ffmpeg e (cached_path t)
                | None \<Rightarrow>
                    (case out (msg_use_sys sys_ffmpeg) of
                       Some m \<Rightarrow> sys_handler out t sys_ffmpeg m (Some sys_ffmpeg)
                     | None \<Rightarrow> (Inr sys_ffmpeg, Some sys_ffmpeg))))"

text \<open>A class attribute that is set and not empty is returned at once.\<close>

definition get_ffmpeg_path :: "stdout \<Rightarrow> tool_lookup \<Rightarrow> (exn + pystr) \<times> pystr option" where
  "get_ffmpeg_path out t =
     (case cached_path t of
        None \<Rightarrow> try_system out t
      | Some p \<Rightarrow> if p = [] then try_system out t else (Inr p, Some p))"

section \<open>The probe executor: \<open>StreamChecker.check_stream_visual\<close>\<close>

text \<open>
  What \<open>subprocess.run\<close> returns (\<open>CompletedProcess\<close>; \<open>stdout\<close> is never read), and the
  dict the probe returns. A key that the dict does not have is \<open>None\<close>, which is what
  \<open>res.get\<close> reads for it.
\<close>

record completed_process =
  returncode :: int
  stderr :: bytes

record probe_result =
  res_url :: pystr
  res_status :: bool
  res_image :: "pystr option"
  res_error :: "pystr option"

text \<open>
  The outside world of one probe: the world of its call of \<open>get_ffmpeg_path\<close>, the
  temporary file name that \<open>os.path.join(tempfile.gettempdir(), ...)\<close> gives (or the
  \<open>str(e)\<close> of what \<open>gettempdir\<close> raises), what running the tool did (it returned, or
  \<open>subprocess.run\<close> raised), and the temporary output file afterwards (\<open>None\<close>: no such
  file).
\<close>

record probe_run =
  tool :: tool_lookup
  temp_filename :: "pystr + pystr"
  proc :: "exn + completed_process"
  out_file :: "bytes option"

definition os_path_exists :: "bytes option \<Rightarrow> bool" where
  "os_path_exists f = (f \<noteq> None)"

definition os_path_getsize :: "bytes option \<Rightarrow> nat" where
  "os_path_getsize f = (case f of None \<Rightarrow> 0 | Some b \<Rightarrow> length b)"

definition read_file :: "bytes option \<Rightarrow> bytes" where
  "read_file f = (case f of None \<Rightarrow> [] | Some b \<Rightarrow> b)"

text \<open>The command line, and the message printed with it before the \<open>try\<close> block.\<close>

definition cmd :: "pystr \<Rightarrow> pystr \<Rightarrow> pystr \<Rightarrow> pystr list" where
  "cmd ffmpeg_exe u temp =
     [ffmpeg_exe, ascii ''-y'', ascii ''-hide_banner'', ascii ''-loglevel'', ascii ''error'',
      ascii ''-t'', ascii ''5'', ascii ''-user_agent'', ascii ''AptvPlayer/1.4.1'',
      ascii ''-i'', u, ascii ''-an'', ascii ''-sn'', ascii ''-frames:v'', ascii ''1'',
      ascii ''-vf'', ascii ''scale=320:-1'', ascii ''-f'', ascii ''image2'', ascii ''-c:v'',
      ascii ''mjpeg'', temp]"

definition msg_cmd :: "pystr list \<Rightarrow> pystr" where
  "msg_cmd c =
     ascii ''DEBUG: '' @ [25191, 34892, 25130, 22270, 21629, 20196] @ ascii '': ''
     @ str_join (ascii '' '') c"

text \<open>The messages printed on the three failure paths.\<close>

definition msg_failed :: "pystr \<Rightarrow> int \<Rightarrow> pystr \<Rightarrow> pystr" where
  "msg_failed u rc m =
     ascii ''DEBUG: ['' @ u @ ascii ''] '' @ [26816, 27979, 22833, 36133] @ ascii '' (RC=''
     @ str_int rc @ ascii ''): '' @ m"

definition msg_timeout :: "pystr \<Rightarrow> pystr" where
  "msg_timeout u = ascii ''DEBUG: ['' @ u @ ascii ''] '' @ [26816, 27979, 36229, 26102]"

definition msg_exception :: "pystr \<Rightarrow> pystr" where
  "msg_exception e = ascii ''DEBUG: '' @ [36816, 34892, 24322, 24120] @ ascii '': '' @ e"

text \<open>The message for the exit codes -11 and 139 (an f-string with the exit code in it).\<close>

definition sigsegv_msg :: "int \<Rightarrow> pystr" where
  "sigsegv_msg rc =
     ascii ''FFmpeg '' @ [36827, 31243, 23849, 28291] @ ascii '' (SIGSEGV, RC='' @ str_int rc
     @ ascii '')'' @ [12290] @ ascii ''LXC ''
     @ [23481, 22120, 24314, 35758, 23433, 35013, 31995, 32479, 23448, 26041, 36719, 20214, 21253,
        12290]"

text \<open>
  \<open>decode\<close> stands for \<open>bytes.decode('utf-8', errors='ignore')\<close> of the standard library.
\<close>

definition err_msg :: "(bytes \<Rightarrow> pystr) \<Rightarrow> completed_process \<Rightarrow> pystr" where
  "err_msg decode result =
     (let m = (if stderr result \<noteq> [] then decode (stderr result)
               else ascii ''FFmpeg produced no image.'')
      in if returncode result = - 11 \<or> returncode result = 139
         then sigsegv_msg (returncode result) else m)"

definition success_result :: "pystr \<Rightarrow> bytes \<Rightarrow> probe_result" where
  "success_result u img_data =
     \<lparr>res_url = u, res_status = True,
      res_image = Some (ascii ''data:image/jpeg;base64,'' @ b64encode img_data),
      res_error = None\<rparr>"

definition failure_result :: "pystr \<Rightarrow> pystr \<Rightarrow> probe_result" where
  "failure_result u m =
     \<lparr>res_url = u, res_status = False, res_image = None, res_error = Some m\<rparr>"

text \<open>
  The body of the \<open>try\<close> block: \<open>Inl\<close> is an exception leaving the block. The file is read
  only after \<open>os.path.exists\<close> and \<open>os.path.getsize\<close> have seen it. The \<open>print\<close> of the
  \<open>else\<close> branch is inside the block, so what it raises leaves the block as well.
\<close>

definition try_body ::
  "stdout \<Rightarrow> (bytes \<Rightarrow> pystr) \<Rightarrow> pystr \<Rightarrow> probe_run \<Rightarrow> exn + probe_result" where
  "try_body out decode u w =
     (case proc w of
        Inl e \<Rightarrow> Inl e
      | Inr result \<Rightarrow>
          if returncode result = 0 \<and> os_path_exists (out_file w)
             \<and> 0 < os_path_getsize (out_file w)
          then Inr (success_result u (read_file (out_file w)))
          else (case out (msg_failed u (returncode result) (take 200 (err_msg decode result))) of
                  Some m \<Rightarrow> Inl (OtherException m)
                | None \<Rightarrow> Inr (failure_result u (take 100 (err_msg decode result)))))"

text \<open>
  The \<open>except\<close> clauses, in the order of the source; each prints before it returns, and
  what the \<open>print\<close> of a handler raises is caught by nothing.
\<close>

definition handlers :: "stdout \<Rightarrow> pystr \<Rightarrow> exn + probe_result \<Rightarrow> exn + probe_result" where
  "handlers out u r =
     (case r of
        Inr res \<Rightarrow> Inr res
      | Inl TimeoutExpired \<Rightarrow>
          (case out (msg_timeout u) of
             Some m \<Rightarrow> Inl (OtherException m)
           | None \<Rightarrow> Inr (failure_result u (ascii ''Detection Timeout'')))
      | Inl (OtherException e) \<Rightarrow>
          (case out (msg_exception e) of
             Some m \<Rightarrow> Inl (OtherException m)
           | None \<Rightarrow> Inr (failure_result u e)))"

text \<open>
  The whole function. Before the \<open>try\<close> block it finds the tool, builds the name of the
  temporary file and prints the command line; an exception there is raised to the caller.
  The \<open>finally\<close> clause only removes the temporary file, swallowing what the removal
  raises; the file's name is fresh and nothing reads it afterwards. The argument is a
  \<open>str\<close>, as the signature says. The class attribute that \<open>get_ffmpeg_path\<close> leaves
  only feeds later calls of it, which have it in their own world.
\<close>

definition check_stream_visual ::
  "stdout \<Rightarrow> (bytes \<Rightarrow> pystr) \<Rightarrow> pystr \<Rightarrow> probe_run \<Rightarrow> exn + probe_result" where
  "check_stream_visual out decode u w =
     (case fst (get_ffmpeg_path out (tool w)) of
        Inl x \<Rightarrow> Inl x
      | Inr ffmpeg_exe \<Rightarrow>
          (case temp_filename w of
             Inl e \<Rightarrow> Inl (OtherException e)
           | Inr temp \<Rightarrow>
               (case out (msg_cmd (cmd ffmpeg_exe u temp)) of
                  Some m \<Rightarrow> Inl (OtherException m)
                | None \<Rightarrow> handlers out u (try_body out decode u w))))"

section \<open>Channels and result writeback\<close>

text \<open>
  The columns of \<open>Channel\<close> that the program reads or writes. The primary key \<open>id\<close> is
  an optional integer; name and URL are strings; a timestamp is a number.
\<close>

record channel =
  chan_id :: "int option"
  name :: pystr
  url :: pystr
  subscription_id :: "int option"
  is_enabled :: bool
  check_status :: "bool option"
  check_date :: "nat option"
  check_image :: "pystr option"
  check_error :: "pystr option"
  check_source :: "pystr option"

text \<open>The probe's dict with the key \<open>ch_id\<close> added: \<open>{**res, "ch_id": ch.id}\<close>.\<close>

record batch_result = probe_result +
  ch_id :: "int option"

text \<open>
  The six assignments to a channel found in storage. \<open>res.get('image')\<close> and
  \<open>res.get('error')\<close> are \<open>None\<close> for a missing key; \<open>now\<close> is what
  \<open>datetime.utcnow()\<close> returns in this iteration.
\<close>

definition assign_check :: "pystr \<Rightarrow> nat \<Rightarrow> batch_result \<Rightarrow> channel \<Rightarrow> channel" where
  "assign_check source now res ch =
     ch\<lparr>check_status := Some (res_status res),
        check_date := Some now,
        check_image := res_image res,
        check_error := (if \<not> res_status res then res_error res else None),
        check_source := Some source,
        is_enabled := res_status res\<rparr>"

text \<open>
  The body of the writeback loop for one result. \<open>res.get('ch_id')\<close> is tested for truth,
  so \<open>None\<close> and 0 both skip the result; \<open>update_session.get\<close> is the lookup by primary
  key, and a result whose channel is not found is skipped as well.
\<close>

definition write_result ::
  "pystr \<Rightarrow> nat \<Rightarrow> (int \<rightharpoonup> channel) \<Rightarrow> batch_result \<Rightarrow> (int \<rightharpoonup> channel)" where
  "write_result source now db res =
     (case ch_id res of
        None \<Rightarrow> db
      | Some i \<Rightarrow>
          if i = 0 then db
          else (case db i of
                  None \<Rightarrow> db
                | Some ch \<Rightarrow> db(i \<mapsto> assign_check source now res ch)))"

text \<open>The loop over the results; \<open>clock k\<close> is the time when result number \<open>k\<close> is written.\<close>

fun write_results ::
  "pystr \<Rightarrow> (nat \<Rightarrow> nat) \<Rightarrow> nat \<Rightarrow> (int \<rightharpoonup> channel) \<Rightarrow> batch_result list \<Rightarrow> (int \<rightharpoonup> channel)"
  where
  "write_results source clock k db [] = db"
| "write_results source clock k db (res # rest) =
     write_results source clock (Suc k) (write_result source (clock k) db res) rest"

section \<open>Reconciliation on refresh: \<open>process_subscription_refresh\<close>\<close>

text \<open>
  A fetched item is a dict with the columns of the feed; \<open>item.get("url")\<close> is \<open>None\<close> when
  the key is missing. The other columns are passed to \<open>Channel\<close> untouched, so their type is
  left open. The entry of \<open>channel_states\<close> for a URL is a dict of four values.
\<close>

record 'x item =
  item_url :: "pystr option"
  item_columns :: 'x

record channel_state =
  s_is_enabled :: bool
  s_check_status :: "bool option"
  s_check_date :: "nat option"
  s_check_image :: "pystr option"

text \<open>The keyword arguments of \<open>Channel(**item, subscription_id=..., ...)\<close>: one row to add.\<close>

record 'x new_channel =
  nc_item :: "'x item"
  nc_subscription_id :: "int option"
  nc_is_enabled :: bool
  nc_check_status :: "bool option"
  nc_check_date :: "nat option"
  nc_check_image :: "pystr option"

text \<open>The first loop: a later channel with the same URL overwrites the entry.\<close>

fun channel_states ::
  "(pystr option \<rightharpoonup> channel_state) \<Rightarrow> channel list \<Rightarrow> (pystr option \<rightharpoonup> channel_state)" where
  "channel_states m [] = m"
| "channel_states m (c # cs) =
     channel_states
       (m(Some (url c) \<mapsto> \<lparr>s_is_enabled = is_enabled c, s_check_status = check_status c,
                            s_check_date = check_date c, s_check_image = check_image c\<rparr>)) cs"

text \<open>
  The body of the second loop. \<open>channel_states.get(url, {})\<close> is the entry or the empty dict;
  \<open>state.get("is_enabled", True)\<close> and \<open>state.get(key)\<close> read it.
\<close>

definition merge_item ::
  "int option \<Rightarrow> (pystr option \<rightharpoonup> channel_state) \<Rightarrow> 'x item \<Rightarrow> 'x new_channel" where
  "merge_item sub_id states it =
     (let state = states (item_url it)
      in \<lparr>nc_item = it,
          nc_subscription_id = sub_id,
          nc_is_enabled = (case state of None \<Rightarrow> True | Some s \<Rightarrow> s_is_enabled s),
          nc_check_status = (case state of None \<Rightarrow> None | Some s \<Rightarrow> s_check_status s),
          nc_check_date = (case state of None \<Rightarrow> None | Some s \<Rightarrow> s_check_date s),
          nc_check_image = (case state of None \<Rightarrow> None | Some s \<Rightarrow> s_check_image s)\<rparr>)"

text \<open>
  The rows added to the session, in order, and the returned count. The old rows are all
  deleted; \<open>channels_data\<close> is what the fetcher returned.
\<close>

definition process_subscription_refresh ::
  "int option \<Rightarrow> channel list \<Rightarrow> 'x item list \<Rightarrow> 'x new_channel list \<times> nat" where
  "process_subscription_refresh sub_id old_channels channels_data =
     (let states = channel_states Map.empty old_channels
      in (map (merge_item sub_id states) channels_data, length channels_data))"

section \<open>The progress percentage: \<open>int((i / total) * 100)\<close>\<close>

text \<open>
  \<open>i / total\<close> is Python's true division of two integers and \<open>* 100\<close> a multiplication of
  floats: each gives the binary64 number nearest to the exact result, ties to the even
  significand. A non-negative binary64 number is written \<open>(m, s)\<close> for \<open>m / 2 ^ s\<close>, with
  \<open>2 ^ 52 \<le> m \<le> 2 ^ 53\<close> unless it is zero. All numbers here lie in the interval from 0 to
  100 (the index is below the total, which is at least 1 where a percentage is computed),
  and a list is shorter than \<open>2 ^ 63\<close>, so that the exponent never leaves the range of
  normal binary64 numbers.
\<close>

text \<open>The least \<open>s' \<ge> s\<close> with \<open>2 ^ 52 \<le> a * 2 ^ s' / b\<close>.\<close>

function find_shift :: "nat \<Rightarrow> nat \<Rightarrow> nat \<Rightarrow> nat" where
  "find_shift a b s =
     (if a = 0 \<or> 2 ^ 52 * b \<le> a * 2 ^ s then s else find_shift a b (Suc s))"
  by pat_completeness auto
termination
proof (relation "measure (\<lambda>(a, b, s). 2 ^ 52 * b - a * 2 ^ s)")
  show "wf (measure (\<lambda>(a, b, s). 2 ^ 52 * b - a * 2 ^ s))" by simp
next
  fix a b s :: nat
  assume "\<not> (a = 0 \<or> 2 ^ 52 * b \<le> a * 2 ^ s)"
  then have pos: "0 < a * 2 ^ s" and below: "a * 2 ^ s < 2 ^ 52 * b" by simp_all
  have double: "a * 2 ^ Suc s = 2 * (a * 2 ^ s)" by simp
  have "2 ^ 52 * b - a * 2 ^ Suc s < 2 ^ 52 * b - a * 2 ^ s"
    unfolding double using pos below by linarith
  then show "((a, b, Suc s), (a, b, s)) \<in> measure (\<lambda>(a, b, s). 2 ^ 52 * b - a * 2 ^ s)"
    by simp
qed

declare find_shift.simps [simp del]

text \<open>The integer nearest to \<open>p / q\<close>, a tie going to the even one.\<close>

definition rne :: "nat \<Rightarrow> nat \<Rightarrow> nat" where
  "rne p q =
     (let f = p div q; r = p mod q
      in if 2 * r < q then f else if q < 2 * r then f + 1 else if even f then f else f + 1)"

text \<open>The binary64 number nearest to \<open>a / b\<close>, for \<open>0 \<le> a / b < 2 ^ 53\<close>.\<close>

definition fl :: "nat \<Rightarrow> nat \<Rightarrow> nat \<times> nat" where
  "fl a b = (let s = find_shift a b 0 in (rne (a * 2 ^ s) b, s))"

definition true_divide :: "nat \<Rightarrow> nat \<Rightarrow> nat \<times> nat" where
  "true_divide i tot = fl i tot"

definition times_100 :: "nat \<times> nat \<Rightarrow> nat \<times> nat" where
  "times_100 x = fl (fst x * 100) (2 ^ snd x)"

text \<open>\<open>int(x)\<close> truncates; the numbers are not negative.\<close>

definition py_int :: "nat \<times> nat \<Rightarrow> int" where
  "py_int x = int (fst x div 2 ^ snd x)"

definition py_percent :: "nat \<Rightarrow> nat \<Rightarrow> int" where
  "py_percent i tot = py_int (times_100 (true_divide i tot))"

section \<open>The batch runner: \<open>StreamChecker.run_batch_check\<close>\<close>

text \<open>
  One call \<open>update_task_status(task_id, progress=..., message=...)\<close>, and the state the
  runner works on: the attributes \<open>_last_p_<task id>\<close> of the class, the channels in storage
  by primary key, and the calls made to the progress sink so far.
\<close>

record report =
  rep_task_id :: "pystr option"
  rep_progress :: int
  rep_message :: pystr

record world =
  attrs :: "pystr \<rightharpoonup> int"
  store :: "int \<rightharpoonup> channel"
  sink :: "report list"

text \<open>
  What the runner does not own: the standard output, the decoder of the standard library,
  whether the call of
  \<open>update_task_status\<close> made by task \<open>i\<close> raises, what the tool does for the probe of task
  \<open>i\<close>, and the clock at the writeback of result \<open>k\<close>.
\<close>

record env =
  stdout_print :: stdout
  utf8_decode :: "bytes \<Rightarrow> pystr"
  update_task_status :: "nat \<Rightarrow> report \<Rightarrow> exn option"
  probe_runs :: "nat \<Rightarrow> probe_run"
  utcnow :: "nat \<Rightarrow> nat"

text \<open>The attribute name \<open>f"_last_p_{task_id}"\<close>; \<open>None\<close> is formatted as \<open>None\<close>.\<close>

definition last_p :: "pystr option \<Rightarrow> pystr" where
  "last_p task_id =
     ascii ''_last_p_'' @ (case task_id of None \<Rightarrow> ascii ''None'' | Some t \<Rightarrow> t)"

text \<open>The message of a progress report, an f-string with \<open>i + 1\<close>, the total and the name.\<close>

definition progress_message :: "nat \<Rightarrow> nat \<Rightarrow> channel \<Rightarrow> pystr" where
  "progress_message i tot ch =
     [27491, 22312, 26816, 27979] @ ascii '' ('' @ str_int (int i + 1) @ ascii ''/''
     @ str_int (int tot) @ ascii ''): '' @ name ch"

text \<open>
  The first part of \<open>_bounded_check(i, ch)\<close>, up to the call of the sink. There is no
  \<open>await\<close> between reading and writing the attribute, and the tasks start in the order of
  their index, so these parts run one after the other in that order. The second component
  is the exception the call raised, if it did.
\<close>

definition report_progress ::
  "env \<Rightarrow> pystr option \<Rightarrow> nat \<Rightarrow> world \<Rightarrow> nat \<Rightarrow> channel \<Rightarrow> world \<times> exn option" where
  "report_progress e task_id tot w i ch =
     (let progress = py_percent i tot;
          last_progress = (case attrs w (last_p task_id) of None \<Rightarrow> - 1 | Some p \<Rightarrow> p)
      in if progress = 0 \<or> progress = 100 \<or> progress - last_progress \<ge> 2
         then let r = \<lparr>rep_task_id = task_id, rep_progress = progress,
                       rep_message = progress_message i tot ch\<rparr>
              in (w\<lparr>attrs := (attrs w)(last_p task_id \<mapsto> progress), sink := sink w @ [r]\<rparr>,
                  update_task_status e i r)
         else (w, None))"

text \<open>
  How a task ends: with its result, with an exception, or never, when it waits for a permit
  that cannot come.
\<close>

datatype task = Finished batch_result | Raised exn | Blocked

text \<open>The three messages that the second part of a task prints.\<close>

definition msg_check :: "nat \<Rightarrow> nat \<Rightarrow> pystr \<Rightarrow> pystr" where
  "msg_check i tot n =
     ascii ''[Check] '' @ [27491, 22312, 26816, 27979] @ ascii '' ('' @ str_int (int i + 1)
     @ ascii ''/'' @ str_int (int tot) @ ascii ''): '' @ n"

definition msg_ok :: pystr where
  "msg_ok =
     ascii ''  '' @ [9492, 9472] @ ascii '' '' @ [9989] @ ascii '' '' @ [25104, 21151]
     @ ascii '' ('' @ [26377, 25928, 25130, 22270] @ ascii '')''"

definition msg_fail :: "pystr \<Rightarrow> pystr" where
  "msg_fail e =
     ascii ''  '' @ [9492, 9472] @ ascii '' '' @ [10060] @ ascii '' '' @ [22833, 36133]
     @ ascii '': '' @ e"

text \<open>
  The second part of \<open>_bounded_check(i, ch)\<close>: under the permit, print, probe, print the
  outcome (\<open>res.get('error', 'Unknown')\<close> on failure) and tag the result. An exception of
  a \<open>print\<close> or of the probe ends the task. A semaphore created with 0 permits never lets a
  task in.
\<close>

definition probe_task :: "env \<Rightarrow> int \<Rightarrow> nat \<Rightarrow> nat \<Rightarrow> channel \<Rightarrow> task" where
  "probe_task e concurrency tot i ch =
     (if concurrency = 0 then Blocked
      else case stdout_print e (msg_check i tot (take 20 (name ch))) of
             Some m \<Rightarrow> Raised (OtherException m)
           | None \<Rightarrow>
               (case check_stream_visual (stdout_print e) (utf8_decode e) (url ch)
                       (probe_runs e i) of
                  Inl x \<Rightarrow> Raised x
                | Inr res \<Rightarrow>
                    (case stdout_print e
                            (if res_status res then msg_ok
                             else msg_fail (case res_error res of
                                              None \<Rightarrow> ascii ''Unknown'' | Some m \<Rightarrow> m)) of
                       Some m \<Rightarrow> Raised (OtherException m)
                     | None \<Rightarrow> Finished (probe_result.extend res \<lparr>ch_id = chan_id ch\<rparr>))))"

definition bounded_check ::
  "env \<Rightarrow> pystr option \<Rightarrow> int \<Rightarrow> nat \<Rightarrow> world \<Rightarrow> nat \<Rightarrow> channel \<Rightarrow> world \<times> task" where
  "bounded_check e task_id concurrency tot w i ch =
     (case report_progress e task_id tot w i ch of
        (w', Some x) \<Rightarrow> (w', Raised x)
      | (w', None) \<Rightarrow> (w', probe_task e concurrency tot i ch))"

text \<open>The tasks of \<open>enumerate(channels)\<close> from index \<open>i\<close> on.\<close>

fun run_tasks ::
  "env \<Rightarrow> pystr option \<Rightarrow> int \<Rightarrow> nat \<Rightarrow> world \<Rightarrow> nat \<Rightarrow> channel list \<Rightarrow> world \<times> task list" where
  "run_tasks e task_id concurrency tot w i [] = (w, [])"
| "run_tasks e task_id concurrency tot w i (ch # chs) =
     (case bounded_check e task_id concurrency tot w i ch of
        (w', t) \<Rightarrow>
          (case run_tasks e task_id concurrency tot w' (Suc i) chs of
             (w'', ts) \<Rightarrow> (w'', t # ts)))"

text \<open>
  \<open>asyncio.gather(*tasks)\<close> without \<open>return_exceptions\<close>: the first exception raised by a
  task is raised to the caller, and the results of the other tasks are dropped. Which of
  several exceptions is the first depends on timing; the model passes on that of the least
  index. Without an exception the call returns the
  results in the order of the tasks, once all have finished, which it never does while a
  task is blocked.
\<close>

datatype gathered = Results "batch_result list" | Exception exn | Waiting

fun gather :: "task list \<Rightarrow> gathered" where
  "gather [] = Results []"
| "gather (Raised x # ts) = Exception x"
| "gather (Finished r # ts) =
     (case gather ts of Results rs \<Rightarrow> Results (r # rs) | g \<Rightarrow> g)"
| "gather (Blocked # ts) =
     (case gather ts of Exception x \<Rightarrow> Exception x | g \<Rightarrow> Waiting)"

text \<open>How the call of the runner ends.\<close>

datatype outcome = Returns | Raises exn | NeverReturns

text \<open>
  \<open>asyncio.Semaphore\<close> raises \<open>ValueError\<close> for a negative value. After the writeback the
  attribute is deleted; an exception from \<open>gather\<close> leaves before both.
\<close>

definition run_batch_check ::
  "env \<Rightarrow> world \<Rightarrow> channel list \<Rightarrow> int \<Rightarrow> pystr \<Rightarrow> pystr option \<Rightarrow> outcome \<times> world" where
  "run_batch_check e w channels concurrency source task_id =
     (if channels = [] then (Returns, w)
      else if concurrency < 0
      then (Raises (OtherException (ascii ''Semaphore initial value must be >= 0'')), w)
      else case run_tasks e task_id concurrency (length channels) w 0 channels of
             (w', ts) \<Rightarrow>
               (case gather ts of
                  Exception x \<Rightarrow> (Raises x, w')
                | Waiting \<Rightarrow> (NeverReturns, w')
                | Results results \<Rightarrow>
                    (Returns,
                     w'\<lparr>store := write_results source (utcnow e) 0 (store w') results,
                        attrs := (attrs w')(last_p task_id := None)\<rparr>)))"

section \<open>Notions used to state the properties of the progress reports\<close>

text \<open>The value of a binary64 number \<open>(m, s)\<close>.\<close>

definition val :: "nat \<times> nat \<Rightarrow> real" where
  "val x = real (fst x) / 2 ^ snd x"

text \<open>
  What \<open>getattr(cls, f"_last_p_{task_id}", -1)\<close> reads in a state, and the percentages
  that a run of tasks reports, given this value at its start and the percentages the tasks
  compute: the condition and the assignment of \<open>report_progress\<close>, on percentages alone.
\<close>

definition last_reported :: "pystr option \<Rightarrow> world \<Rightarrow> int" where
  "last_reported task_id w = (case attrs w (last_p task_id) of None \<Rightarrow> - 1 | Some p \<Rightarrow> p)"

fun emitted :: "int \<Rightarrow> int list \<Rightarrow> int list" where
  "emitted l [] = []"
| "emitted l (p # ps) =
     (if p = 0 \<or> p = 100 \<or> p - l \<ge> 2 then p # emitted p ps else emitted l ps)"

section \<open>The permit: the tasks interleaved\<close>

text \<open>
  \<open>run_tasks\<close> follows the tasks one after the other. For the permit the order in which
  the tasks move matters, so here every task has a phase and any task may move next. A task
  starts with its progress report (which may raise and end the task), then waits at
  \<open>async with sem\<close>, enters when the semaphore has a permit, taking it, runs
  \<open>check_stream_visual\<close>, and on leaving the \<open>async with\<close> block gives the permit back,
  whether the probe succeeded, failed or raised. \<open>permits\<close> is the value of the
  semaphore, which starts at \<open>concurrency\<close>.
\<close>

datatype phase = Started | AwaitingPermit | InProbe | Ended

record sched =
  permits :: nat
  phases :: "phase list"

inductive step :: "sched \<Rightarrow> sched \<Rightarrow> bool" where
  reported:
    "i < length (phases s) \<Longrightarrow> phases s ! i = Started \<Longrightarrow>
     step s (s\<lparr>phases := (phases s)[i := AwaitingPermit]\<rparr>)"
| report_raised:
    "i < length (phases s) \<Longrightarrow> phases s ! i = Started \<Longrightarrow>
     step s (s\<lparr>phases := (phases s)[i := Ended]\<rparr>)"
| acquired:
    "i < length (phases s) \<Longrightarrow> phases s ! i = AwaitingPermit \<Longrightarrow> 0 < permits s \<Longrightarrow>
     step s (s\<lparr>permits := permits s - 1, phases := (phases s)[i := InProbe]\<rparr>)"
| released:
    "i < length (phases s) \<Longrightarrow> phases s ! i = InProbe \<Longrightarrow>
     step s (s\<lparr>permits := permits s + 1, phases := (phases s)[i := Ended]\<rparr>)"

code_pred step .

inductive reachable :: "nat \<Rightarrow> nat \<Rightarrow> sched \<Rightarrow> bool" for k n where
  initial: "reachable k n \<lparr>permits = k, phases = replicate n Started\<rparr>"
| later: "reachable k n s \<Longrightarrow> step s s' \<Longrightarrow> reachable k n s'"

text \<open>The number of tasks inside the \<open>async with\<close> block, that is, of probes running.\<close>

definition in_probe :: "sched \<Rightarrow> nat" where
  "in_probe s = length (filter (\<lambda>p. p = InProbe) (phases s))"

section \<open>Example data\<close>

text \<open>Concrete channels, results, environments and states for the examples below.\<close>

definition example_channel :: "int \<Rightarrow> pystr \<Rightarrow> channel" where
  "example_channel i u =
     \<lparr>chan_id = Some i, name = ascii ''News'', url = u, subscription_id = Some 1,
      is_enabled = True, check_status = None, check_date = None, check_image = None,
      check_error = None, check_source = None\<rparr>"

definition example_success :: "int \<Rightarrow> batch_result" where
  "example_success i =
     \<lparr>res_url = ascii ''http://a'', res_status = True,
      res_image = Some (ascii ''data:image/jpeg;base64,TWFu''), res_error = None,
      ch_id = Some i\<rparr>"

definition example_failure :: "int \<Rightarrow> batch_result" where
  "example_failure i =
     \<lparr>res_url = ascii ''http://a'', res_status = False, res_image = None,
      res_error = Some (ascii ''Detection Timeout''), ch_id = Some i\<rparr>"

definition example_tool :: tool_lookup where
  "example_tool =
     \<lparr>cached_path = Some (ascii ''ffmpeg''), which_ffmpeg = None, sys_version = None,
      static_fetch = Inr (ascii ''ffmpeg''), static_version = None\<rparr>"

definition example_run :: "exn + completed_process \<Rightarrow> bytes option \<Rightarrow> probe_run" where
  "example_run p f =
     \<lparr>tool = example_tool, temp_filename = Inr (ascii ''/tmp/capture_0.jpg''), proc = p,
      out_file = f\<rparr>"

text \<open>
  A standard output that prints everything, and one encoded in UTF-8, which has no place for
  the lone surrogate U+DC80 (code point 56448); the message is that of
  \<open>UnicodeEncodeError\<close> for a text with one such code point.
\<close>

definition quiet_stdout :: stdout where
  "quiet_stdout s = None"


definition example_env :: env where
  "example_env =
     \<lparr>stdout_print = quiet_stdout, utf8_decode = (\<lambda>b. []),
      update_task_status = (\<lambda>i r. None),
      probe_runs = (\<lambda>i. example_run (Inl TimeoutExpired) None),
      utcnow = (\<lambda>k. 1000 + k)\<rparr>"


definition example_world :: world where
  "example_world =
     \<lparr>attrs = Map.empty,
      store = [1 \<mapsto> example_channel 1 (ascii ''http://a''),
               2 \<mapsto> example_channel 2 (ascii ''http://b'')],
      sink = []\<rparr>"

definition example_channels :: "channel list" where
  "example_channels =
     [example_channel 1 (ascii ''http://a''), example_channel 2 (ascii ''http://b''),
      example_channel 3 (ascii ''http://c'')]"

section \<open>Properties of the probe executor\<close>

text \<open>When every \<open>print\<close> returns, finding the tool raises nothing.\<close>

lemma get_ffmpeg_path_quiet:
  assumes "\<forall>s. out s = None"
  shows "\<exists>p. fst (get_ffmpeg_path out t) = Inr p"
  using assms
  by (auto simp: get_ffmpeg_path_def try_system_def sys_handler_def try_static_def
        static_handler_def fetch_handler_def last_resort_def
        split: option.splits sum.splits)

text \<open>
  When every \<open>print\<close> returns and the temporary file has a name, the probe returns a
  result: a success with the data URL of the file's bytes exactly when the tool returned
  exit code 0 and the output file exists and is not empty, and a failure otherwise, with the
  fixed message after a timeout, the exception's message after another exception, and the
  first 100 code points of the tool's message else.
\<close>

lemma check_stream_visual_quiet:
  assumes "\<forall>s. out s = None" and "temp_filename w = Inr temp"
  shows "check_stream_visual out decode u w =
     Inr (case proc w of
            Inl TimeoutExpired \<Rightarrow> failure_result u (ascii ''Detection Timeout'')
          | Inl (OtherException m) \<Rightarrow> failure_result u m
          | Inr result \<Rightarrow>
              (case out_file w of
                 None \<Rightarrow> failure_result u (take 100 (err_msg decode result))
               | Some img_data \<Rightarrow>
                   if returncode result = 0 \<and> img_data \<noteq> []
                   then success_result u img_data
                   else failure_result u (take 100 (err_msg decode result))))"
proof -
  from get_ffmpeg_path_quiet [OF assms(1)] obtain p where
    "fst (get_ffmpeg_path out (tool w)) = Inr p" by blast
  with assms show ?thesis
    by (auto simp: check_stream_visual_def handlers_def try_body_def os_path_exists_def
          os_path_getsize_def read_file_def
          split: sum.splits exn.splits option.splits)
qed

lemma failure_message_truncated:
  "\<forall>s. out s = None \<Longrightarrow> temp_filename w = Inr temp \<Longrightarrow> proc w = Inr result \<Longrightarrow>
   check_stream_visual out decode u w = Inr r \<Longrightarrow> \<not> res_status r \<Longrightarrow>
   \<exists>m. res_error r = Some m \<and> length m \<le> 100"
  by (auto simp: check_stream_visual_quiet success_result_def failure_result_def
           split: if_splits option.splits)


text \<open>
  C8. The claim asks for a truncated message on every failure path. On the path of an
  unexpected exception the probe returns \<open>str(e)\<close> whole: an exception whose message has
  101 code points gives a failure result whose message has 101 code points, beyond the 100
  that the sibling path keeps.
\<close>

theorem exception_message_untruncated:
  "\<exists>r. check_stream_visual quiet_stdout (\<lambda>b. []) (ascii ''http://a'')
          (example_run (Inl (OtherException (replicate 101 120))) None) = Inr r
       \<and> \<not> res_status r \<and> res_error r = Some (replicate 101 120)
       \<and> length (replicate 101 (120::nat)) = 101"
  by (simp add: check_stream_visual_def get_ffmpeg_path_def example_run_def example_tool_def
        quiet_stdout_def handlers_def try_body_def failure_result_def ascii_def)

section \<open>Properties of the writeback\<close>

lemma write_result_other: "ch_id res \<noteq> Some i \<Longrightarrow> write_result source now db res i = db i"
  by (auto simp: write_result_def split: option.splits)

lemma write_result_zero: "write_result source now db res 0 = db 0"
  by (auto simp: write_result_def split: option.splits)

lemma write_result_dom: "dom (write_result source now db res) = dom db"
  by (auto simp: write_result_def split: option.splits if_splits)

lemma write_results_dom: "dom (write_results source clock k db rs) = dom db"
  by (induction rs arbitrary: k db) (simp_all add: write_result_dom)

lemma write_results_zero: "write_results source clock k db rs 0 = db 0"
  by (induction rs arbitrary: k db) (simp_all add: write_result_zero)

lemma write_results_other:
  "\<forall>r \<in> set rs. ch_id r \<noteq> Some i \<Longrightarrow> write_results source clock k db rs i = db i"
  by (induction rs arbitrary: k db) (simp_all add: write_result_other)

lemma write_result_hit:
  "ch_id res = Some i \<Longrightarrow> i \<noteq> 0 \<Longrightarrow> db i = Some c \<Longrightarrow>
   write_result source now db res i = Some (assign_check source now res c)"
  by (simp add: write_result_def)

text \<open>An earlier write to the same channel is overwritten in all six columns.\<close>

lemma write_result_pres:
  "db i = Some c \<Longrightarrow>
   \<exists>c'. write_result source now db res i = Some c'
      \<and> assign_check s n r c' = assign_check s n r c"
  by (auto simp: write_result_def assign_check_def split: option.splits)

lemma write_results_nth:
  "j < length rs \<Longrightarrow> ch_id (rs ! j) = Some i \<Longrightarrow> i \<noteq> 0 \<Longrightarrow> db i = Some c \<Longrightarrow>
   (\<forall>l. j < l \<and> l < length rs \<longrightarrow> ch_id (rs ! l) \<noteq> Some i) \<Longrightarrow>
   write_results source clock k db rs i = Some (assign_check source (clock (k + j)) (rs ! j) c)"
proof (induction rs arbitrary: j k db c)
  case Nil
  then show ?case by simp
next
  case (Cons r rs)
  show ?case
  proof (cases j)
    case 0
    have later: "\<forall>x \<in> set rs. ch_id x \<noteq> Some i"
    proof
      fix x assume "x \<in> set rs"
      then obtain l where "l < length rs" "rs ! l = x" by (auto simp: in_set_conv_nth)
      with Cons.prems(5) [rule_format, of "Suc l"] 0 show "ch_id x \<noteq> Some i" by auto
    qed
    from 0 Cons.prems
    have "write_result source (clock k) db r i = Some (assign_check source (clock k) r c)"
      by (simp add: write_result_hit)
    with later 0 show ?thesis by (simp add: write_results_other)
  next
    case (Suc j')
    from write_result_pres
           [of db i c source "clock k" r source "clock (Suc k + j')" "rs ! j'"] Cons.prems(4)
    obtain c' where c': "write_result source (clock k) db r i = Some c'"
      and eq: "assign_check source (clock (Suc k + j')) (rs ! j') c'
                 = assign_check source (clock (Suc k + j')) (rs ! j') c"
      by blast
    have "write_results source clock (Suc k) (write_result source (clock k) db r) rs i
            = Some (assign_check source (clock (Suc k + j')) (rs ! j') c')"
    proof (rule Cons.IH)
      show "j' < length rs" using Cons.prems(1) Suc by simp
      show "ch_id (rs ! j') = Some i" using Cons.prems(2) Suc by simp
      show "i \<noteq> 0" by fact
      show "write_result source (clock k) db r i = Some c'" by fact
      show "\<forall>l. j' < l \<and> l < length rs \<longrightarrow> ch_id (rs ! l) \<noteq> Some i"
      proof (intro allI impI)
        fix l assume "j' < l \<and> l < length rs"
        with Cons.prems(5) [rule_format, of "Suc l"] Suc show "ch_id (rs ! l) \<noteq> Some i"
          by simp
      qed
    qed
    with eq Suc show ?thesis by simp
  qed
qed

text \<open>
  C3, as the code has it. Take a result of the batch whose channel identifier is not 0 and
  resolves to a channel in storage, and let no later result of the batch name the same
  channel. After the writeback that channel has the probe's success flag as its
  check-success flag and as its enabled flag, the time of the write as its check timestamp,
  the probe's image as its artifact, the probe's error message as its check error when the
  probe failed and no check error when it succeeded, and the source tag; its other columns
  are as before. Results whose identifier resolves to nothing add no channel and do not
  disturb this: the channels in storage are the same set as before.
\<close>

theorem write_results_sets_columns:
  assumes "j < length results" and "ch_id (results ! j) = Some i" and "i \<noteq> 0"
    and "db i = Some c"
    and "\<forall>l. j < l \<and> l < length results \<longrightarrow> ch_id (results ! l) \<noteq> Some i"
  shows "write_results source clock 0 db results i =
           Some (c\<lparr>check_status := Some (res_status (results ! j)),
                   check_date := Some (clock j),
                   check_image := res_image (results ! j),
                   check_error := (if \<not> res_status (results ! j)
                                   then res_error (results ! j) else None),
                   check_source := Some source,
                   is_enabled := res_status (results ! j)\<rparr>)
         \<and> dom (write_results source clock 0 db results) = dom db"
  using write_results_nth [of j results i db c source clock 0] assms
  by (simp add: assign_check_def write_results_dom)

theorem write_results_sets_columns_witness:
  "write_results (ascii ''manual'') (\<lambda>k. 1000 + k) 0
     [1 \<mapsto> example_channel 1 (ascii ''http://a'')]
     [example_failure 7, example_failure 1] 1
   = Some ((example_channel 1 (ascii ''http://a''))
             \<lparr>check_status := Some False, check_date := Some 1001, check_image := None,
              check_error := Some (ascii ''Detection Timeout''),
              check_source := Some (ascii ''manual''), is_enabled := False\<rparr>)
   \<and> dom (write_results (ascii ''manual'') (\<lambda>k. 1000 + k) 0
            [1 \<mapsto> example_channel 1 (ascii ''http://a'')]
            [example_failure 7, example_failure 1]) = {1}"
  using write_results_sets_columns
          [of 1 "[example_failure 7, example_failure 1]" 1
              "[1 \<mapsto> example_channel 1 (ascii ''http://a'')]"
              "example_channel 1 (ascii ''http://a'')" "ascii ''manual''" "\<lambda>k. 1000 + k"]
  by (simp add: example_failure_def)

text \<open>
  The claim as the spec words it fails in two ways. A channel with identifier 0 that is in
  storage is not touched by its result. And when two results name the same channel, the
  columns are those of the later result, not of the earlier one.
\<close>

theorem write_results_counterexample:
  "ch_id (example_success 0) = Some 0
   \<and> [0 \<mapsto> example_channel 0 (ascii ''http://a'')] 0 = Some (example_channel 0 (ascii ''http://a''))
   \<and> write_results (ascii ''manual'') (\<lambda>k. 1000 + k) 0
        [0 \<mapsto> example_channel 0 (ascii ''http://a'')] [example_success 0] 0
      = Some (example_channel 0 (ascii ''http://a''))
   \<and> check_status (example_channel 0 (ascii ''http://a'')) = None
   \<and> res_status (example_success 5) = True
   \<and> map_option is_enabled
        (write_results (ascii ''manual'') (\<lambda>k. 1000 + k) 0
           [5 \<mapsto> example_channel 5 (ascii ''http://a'')]
           [example_success 5, example_failure 5] 5) = Some False
   \<and> map_option check_status
        (write_results (ascii ''manual'') (\<lambda>k. 1000 + k) 0
           [5 \<mapsto> example_channel 5 (ascii ''http://a'')]
           [example_success 5, example_failure 5] 5) = Some (Some False)"
  by (simp add: write_result_def assign_check_def example_success_def example_failure_def
        example_channel_def)

section \<open>Properties of the reconciliation\<close>

lemma find_append:
  "find P (xs @ ys) = (case find P xs of None \<Rightarrow> find P ys | Some x \<Rightarrow> Some x)"
  by (induction xs) simp_all

text \<open>The entry for a URL is that of the last old channel with this URL.\<close>

lemma channel_states_lookup:
  "channel_states m old u =
     (case find (\<lambda>c. Some (url c) = u) (rev old) of
        None \<Rightarrow> m u
      | Some c \<Rightarrow> Some \<lparr>s_is_enabled = is_enabled c, s_check_status = check_status c,
                        s_check_date = check_date c, s_check_image = check_image c\<rparr>)"
proof (induction old arbitrary: m)
  case Nil
  then show ?case by simp
next
  case (Cons c cs)
  show ?case
    by (simp add: Cons.IH find_append split: option.splits)
qed

text \<open>
  C4. The merge yields one row per fetched item, in order. The row carries the item itself,
  that is every fetched column. When some old channel has the item's URL, the row has the
  enabled flag, check-success flag, check timestamp and check artifact of that channel (of
  the last one in the old set, should several share the URL); otherwise it is enabled and
  its three check fields are unset.
\<close>

theorem process_subscription_refresh_merge:
  assumes "k < length channels_data"
  shows "(case process_subscription_refresh sub_id old_channels channels_data of
            (rows, count) \<Rightarrow>
              count = length channels_data \<and> length rows = length channels_data
              \<and> nc_item (rows ! k) = channels_data ! k
              \<and> nc_subscription_id (rows ! k) = sub_id
              \<and> (case find (\<lambda>c. Some (url c) = item_url (channels_data ! k)) (rev old_channels) of
                    Some c \<Rightarrow>
                      nc_is_enabled (rows ! k) = is_enabled c
                      \<and> nc_check_status (rows ! k) = check_status c
                      \<and> nc_check_date (rows ! k) = check_date c
                      \<and> nc_check_image (rows ! k) = check_image c
                  | None \<Rightarrow>
                      nc_is_enabled (rows ! k) = True
                      \<and> nc_check_status (rows ! k) = None
                      \<and> nc_check_date (rows ! k) = None
                      \<and> nc_check_image (rows ! k) = None))"
  using assms
  by (simp add: process_subscription_refresh_def merge_item_def channel_states_lookup
           split: option.splits)

theorem process_subscription_refresh_merge_witness:
  "(case process_subscription_refresh (Some 1)
           [(example_channel 3 (ascii ''a''))\<lparr>is_enabled := False, check_status := Some True\<rparr>]
           [\<lparr>item_url = Some (ascii ''a''), item_columns = ascii ''X''\<rparr>,
            \<lparr>item_url = Some (ascii ''b''), item_columns = ascii ''Y''\<rparr>] of
      (rows, count) \<Rightarrow>
        count = 2 \<and> length rows = 2
        \<and> nc_item (rows ! 0) = \<lparr>item_url = Some (ascii ''a''), item_columns = ascii ''X''\<rparr>
        \<and> nc_is_enabled (rows ! 0) = False \<and> nc_check_status (rows ! 0) = Some True
        \<and> nc_item (rows ! 1) = \<lparr>item_url = Some (ascii ''b''), item_columns = ascii ''Y''\<rparr>
        \<and> nc_is_enabled (rows ! 1) = True \<and> nc_check_status (rows ! 1) = None
        \<and> nc_check_date (rows ! 1) = None \<and> nc_check_image (rows ! 1) = None)"
  using process_subscription_refresh_merge
          [of 0 "[\<lparr>item_url = Some (ascii ''a''), item_columns = ascii ''X''\<rparr>,
                  \<lparr>item_url = Some (ascii ''b''), item_columns = ascii ''Y''\<rparr>]" "Some 1"
              "[(example_channel 3 (ascii ''a''))\<lparr>is_enabled := False, check_status := Some True\<rparr>]"]
        process_subscription_refresh_merge
          [of 1 "[\<lparr>item_url = Some (ascii ''a''), item_columns = ascii ''X''\<rparr>,
                  \<lparr>item_url = Some (ascii ''b''), item_columns = ascii ''Y''\<rparr>]" "Some 1"
              "[(example_channel 3 (ascii ''a''))\<lparr>is_enabled := False, check_status := Some True\<rparr>]"]
  by (simp add: example_channel_def ascii_def split: prod.splits)

section \<open>Properties of the progress percentage\<close>

text \<open>
  \<open>find_shift\<close> returns the least shift that brings the quotient up to \<open>2 ^ 52\<close>.
\<close>

lemma find_shift_sat: "0 < a \<Longrightarrow> 2 ^ 52 * b \<le> a * 2 ^ find_shift a b s"
proof (induction a b s rule: find_shift.induct)
  case (1 a b s)
  show ?case
  proof (cases "a = 0 \<or> 2 ^ 52 * b \<le> a * 2 ^ s")
    case True
    with 1 show ?thesis by (subst find_shift.simps) simp
  next
    case False
    with 1 have "2 ^ 52 * b \<le> a * 2 ^ find_shift a b (Suc s)" by simp
    moreover from False have "find_shift a b s = find_shift a b (Suc s)"
      by (subst find_shift.simps) simp
    ultimately show ?thesis by simp
  qed
qed

lemma find_shift_min: "s \<le> t \<Longrightarrow> t < find_shift a b s \<Longrightarrow> a * 2 ^ t < 2 ^ 52 * b"
proof (induction a b s rule: find_shift.induct)
  case (1 a b s)
  show ?case
  proof (cases "a = 0 \<or> 2 ^ 52 * b \<le> a * 2 ^ s")
    case True
    then have "find_shift a b s = s" by (subst find_shift.simps) simp
    with 1 show ?thesis by simp
  next
    case False
    then have eq: "find_shift a b s = find_shift a b (Suc s)"
      by (subst find_shift.simps) simp
    show ?thesis
    proof (cases "t = s")
      case True
      with False show ?thesis by simp
    next
      case False
      with 1 eq \<open>\<not> (a = 0 \<or> 2 ^ 52 * b \<le> a * 2 ^ s)\<close> show ?thesis by simp
    qed
  qed
qed

lemma find_shift_eqI:
  assumes "0 < a" and "2 ^ 52 * b \<le> a * 2 ^ t" and "t = 0 \<or> a * 2 ^ (t - 1) < 2 ^ 52 * b"
  shows "find_shift a b 0 = t"
proof -
  let ?u = "find_shift a b 0"
  have "\<not> t < ?u" using find_shift_min [of 0 t a b] assms(2) by auto
  moreover have "\<not> ?u < t"
  proof
    assume lt: "?u < t"
    then have "t \<noteq> 0" by simp
    with assms(3) have below: "a * 2 ^ (t - 1) < 2 ^ 52 * b" by simp
    from lt have "?u \<le> t - 1" by simp
    then have "(2::nat) ^ ?u \<le> 2 ^ (t - 1)" by (simp add: power_increasing)
    then have "a * 2 ^ ?u \<le> a * 2 ^ (t - 1)" by simp
    from this find_shift_sat [OF assms(1), of b 0] below show False by linarith
  qed
  ultimately show ?thesis by simp
qed

lemma rne_exact: "0 < q \<Longrightarrow> rne (k * q) q = k"
  by (simp add: rne_def Let_def)

lemma div_mono_cross:
  fixes p q p' q' :: nat
  assumes "0 < q" "0 < q'" "p * q' \<le> p' * q"
  shows "p div q \<le> p' div q'"
proof -
  have "real p / real q \<le> real p' / real q'"
    using assms by (simp add: field_simps) (metis of_nat_le_iff of_nat_mult)
  then have "\<lfloor>real p / real q\<rfloor> \<le> \<lfloor>real p' / real q'\<rfloor>" by (rule floor_mono)
  then show ?thesis by (simp add: floor_divide_of_nat_eq)
qed

lemma rne_mono:
  fixes p q p' q' :: nat
  assumes q: "0 < q" and q': "0 < q'" and le: "p * q' \<le> p' * q"
  shows "rne p q \<le> rne p' q'"
proof -
  define x where "x = real p / real q"
  define x' where "x' = real p' / real q'"
  define f where "f = p div q"
  define f' where "f' = p' div q'"
  define r where "r = real (p mod q) / real q"
  define r' where "r' = real (p' mod q') / real q'"
  have xx': "x \<le> x'"
    unfolding x_def x'_def using assms
    by (simp add: field_simps) (metis of_nat_le_iff of_nat_mult)
  have x: "x = real f + r" unfolding x_def f_def r_def by (rule of_nat_of_nat_div_aux)
  have x': "x' = real f' + r'" unfolding x'_def f'_def r'_def by (rule of_nat_of_nat_div_aux)
  have r01: "0 \<le> r" "r < 1" using q by (simp_all add: r_def)
  have r'01: "0 \<le> r'" "r' < 1" using q' by (simp_all add: r'_def)
  have c1: "(2 * (p mod q) < q) = (r < 1/2)" using q
    by (simp add: r_def field_simps) (metis of_nat_less_iff of_nat_mult of_nat_numeral)
  have c2: "(q < 2 * (p mod q)) = (1/2 < r)" using q
    by (simp add: r_def field_simps) (metis of_nat_less_iff of_nat_mult of_nat_numeral)
  have c1': "(2 * (p' mod q') < q') = (r' < 1/2)" using q'
    by (simp add: r'_def field_simps) (metis of_nat_less_iff of_nat_mult of_nat_numeral)
  have c2': "(q' < 2 * (p' mod q')) = (1/2 < r')" using q'
    by (simp add: r'_def field_simps) (metis of_nat_less_iff of_nat_mult of_nat_numeral)
  have a: "rne p q = (if r < 1/2 then f else if 1/2 < r then f + 1 else if even f then f else f + 1)"
    by (simp add: rne_def Let_def c1 c2 f_def)
  have a': "rne p' q' = (if r' < 1/2 then f' else if 1/2 < r' then f' + 1 else if even f' then f' else f' + 1)"
    by (simp add: rne_def Let_def c1' c2' f'_def)
  have ff': "f \<le> f'" unfolding f_def f'_def using assms by (rule div_mono_cross)
  show ?thesis
  proof (cases "f = f'")
    case True
    with xx' x x' have "r \<le> r'" by simp
    with True show ?thesis unfolding a a' by auto
  next
    case False
    with ff' have "f + 1 \<le> f'" by simp
    then show ?thesis unfolding a a' by auto
  qed
qed

text \<open>
  Rounding to the nearest binary64 number is monotone, and with it the percentage is
  monotone in the index.
\<close>

lemma find_shift_zero: "find_shift 0 b s = s"
  by (subst find_shift.simps) simp

lemma fl_zero: "fl 0 b = (0, 0)"
  by (simp add: fl_def find_shift_zero rne_def)

lemma fl_eqI:
  "0 < a \<Longrightarrow> 2 ^ 52 * b \<le> a * 2 ^ t \<Longrightarrow> t = 0 \<or> a * 2 ^ (t - 1) < 2 ^ 52 * b \<Longrightarrow>
   fl a b = (rne (a * 2 ^ t) b, t)"
  by (simp add: fl_def find_shift_eqI)

lemma fl_mono:
  assumes b: "0 < b" and d: "0 < d" and le: "a * d \<le> c * b"
  shows "val (fl a b) \<le> val (fl c d)"
proof (cases "a = 0")
  case True
  then show ?thesis by (simp add: fl_zero val_def)
next
  case False
  then have a: "0 < a" by simp
  have c: "0 < c"
  proof (rule ccontr)
    assume "\<not> 0 < c"
    with le have "a * d = 0" by simp
    with a d show False by simp
  qed
  define s where "s = find_shift a b 0"
  define t where "t = find_shift c d 0"
  have sa: "2 ^ 52 * b \<le> a * 2 ^ s" unfolding s_def using a by (rule find_shift_sat)
  have tc: "2 ^ 52 * d \<le> c * 2 ^ t" unfolding t_def using c by (rule find_shift_sat)
  have "(2 ^ 52 * d) * b = (2 ^ 52 * b) * d" by simp
  also have "\<dots> \<le> (a * 2 ^ s) * d" using sa by (rule mult_le_mono1)
  also have "\<dots> = (a * d) * 2 ^ s" by simp
  also have "\<dots> \<le> (c * b) * 2 ^ s" using le by (rule mult_le_mono1)
  also have "\<dots> = (c * 2 ^ s) * b" by simp
  finally have cs: "2 ^ 52 * d \<le> c * 2 ^ s" using b by simp
  have ts: "t \<le> s"
  proof (rule ccontr)
    assume "\<not> t \<le> s"
    then have "s < find_shift c d 0" by (simp add: t_def)
    with find_shift_min [of 0 s c d] have "c * 2 ^ s < 2 ^ 52 * d" by simp
    with cs show False by simp
  qed
  have va: "val (fl a b) = real (rne (a * 2 ^ s) b) / 2 ^ s"
    by (simp add: fl_def val_def s_def Let_def)
  have vc: "val (fl c d) = real (rne (c * 2 ^ t) d) / 2 ^ t"
    by (simp add: fl_def val_def t_def Let_def)
  show ?thesis
  proof (cases "t = s")
    case True
    have "(a * 2 ^ s) * d = (a * d) * 2 ^ s" by simp
    also have "\<dots> \<le> (c * b) * 2 ^ s" using le by (rule mult_le_mono1)
    also have "\<dots> = (c * 2 ^ s) * b" by simp
    finally have "rne (a * 2 ^ s) b \<le> rne (c * 2 ^ s) d" using b d by (intro rne_mono)
    with True show ?thesis unfolding va vc by (simp add: divide_right_mono)
  next
    case False
    with ts have lt: "t < s" by simp
    then have "s - 1 < find_shift a b 0" by (simp add: s_def)
    with find_shift_min [of 0 "s - 1" a b] have below: "a * 2 ^ (s - 1) < 2 ^ 52 * b" by simp
    from lt have S: "(2::nat) ^ s = 2 * 2 ^ (s - 1)" by (cases s) simp_all
    have "a * 2 ^ s = 2 * (a * 2 ^ (s - 1))" by (simp add: S)
    also from below have "\<dots> \<le> 2 * (2 ^ 52 * b)" by simp
    also have "\<dots> = 2 ^ 53 * b" by simp
    finally have "a * 2 ^ s \<le> 2 ^ 53 * b" .
    then have "(a * 2 ^ s) * b \<le> (2 ^ 53 * b) * b" by (rule mult_le_mono1)
    with b have "rne (a * 2 ^ s) b \<le> rne (2 ^ 53 * b) b" by (intro rne_mono)
    with b have ra: "rne (a * 2 ^ s) b \<le> 2 ^ 53" by (simp only: rne_exact)
    from tc have "(2 ^ 52 * d) * d \<le> (c * 2 ^ t) * d" by (rule mult_le_mono1)
    with d have "rne (2 ^ 52 * d) d \<le> rne (c * 2 ^ t) d" by (intro rne_mono)
    with d have rc: "2 ^ 52 \<le> rne (c * 2 ^ t) d" by (simp only: rne_exact)
    from ra have "real (rne (a * 2 ^ s) b) \<le> 2 ^ 53"
      by (metis of_nat_le_iff of_nat_numeral of_nat_power)
    then have "val (fl a b) \<le> 2 ^ 53 / 2 ^ s" unfolding va by (simp add: divide_right_mono)
    also have "\<dots> = 2 ^ 52 / 2 ^ (s - 1)"
    proof -
      have "(2::real) ^ s = 2 * 2 ^ (s - 1)" using lt by (cases s) simp_all
      then show ?thesis by simp
    qed
    also have "\<dots> \<le> 2 ^ 52 / 2 ^ t"
    proof -
      from lt have "t \<le> s - 1" by simp
      then have "(2::real) ^ t \<le> 2 ^ (s - 1)" by (simp add: power_increasing)
      then show ?thesis by (simp add: divide_left_mono)
    qed
    also have "\<dots> \<le> val (fl c d)"
    proof -
      from rc have "(2::real) ^ 52 \<le> real (rne (c * 2 ^ t) d)"
        by (metis of_nat_le_iff of_nat_numeral of_nat_power)
      then show ?thesis unfolding vc by (simp add: divide_right_mono)
    qed
    finally show ?thesis .
  qed
qed

lemma val_le_iff: "val x \<le> val y \<longleftrightarrow> fst x * 2 ^ snd y \<le> fst y * 2 ^ snd x"
proof -
  have "val x \<le> val y \<longleftrightarrow> real (fst x) * 2 ^ snd y \<le> real (fst y) * 2 ^ snd x"
    by (simp add: val_def field_simps)
  also have "\<dots> \<longleftrightarrow> real (fst x * 2 ^ snd y) \<le> real (fst y * 2 ^ snd x)" by simp
  also have "\<dots> \<longleftrightarrow> fst x * 2 ^ snd y \<le> fst y * 2 ^ snd x" by (rule of_nat_le_iff)
  finally show ?thesis .
qed

lemma times_100_mono: "val x \<le> val y \<Longrightarrow> val (times_100 x) \<le> val (times_100 y)"
  unfolding times_100_def
  by (rule fl_mono) (simp_all add: val_le_iff)

lemma py_int_mono: "val x \<le> val y \<Longrightarrow> py_int x \<le> py_int y"
  unfolding py_int_def val_le_iff
  by (simp add: div_mono_cross)

lemma py_percent_mono: "0 < n \<Longrightarrow> i \<le> j \<Longrightarrow> py_percent i n \<le> py_percent j n"
  unfolding py_percent_def true_divide_def
  by (intro py_int_mono times_100_mono fl_mono) simp_all

lemma py_percent_zero: "py_percent 0 n = 0"
  by (simp add: py_percent_def true_divide_def times_100_def py_int_def fl_zero)

lemma py_percent_nonneg: "0 \<le> py_percent i n"
  by (simp add: py_percent_def py_int_def)

lemma fl_below_one: "fl (2 ^ 53 - 1) (2 ^ 53) = (2 ^ 53 - 1, 53)"
proof -
  have "fl (2 ^ 53 - 1) (2 ^ 53) = (rne ((2 ^ 53 - 1) * 2 ^ 53) (2 ^ 53), 53)"
    by (rule fl_eqI) simp_all
  then show ?thesis by (simp add: rne_def)
qed

lemma py_percent_below_one: "py_int (times_100 (2 ^ 53 - 1, 53)) = 99"
proof -
  have "fl ((2 ^ 53 - 1) * 100) (2 ^ 53) = (rne ((2 ^ 53 - 1) * 100 * 2 ^ 46) (2 ^ 53), 46)"
    by (rule fl_eqI) simp_all
  then show ?thesis by (simp add: times_100_def py_int_def rne_def)
qed

lemma py_percent_le_99:
  assumes "i < n" and "n \<le> 2 ^ 53"
  shows "py_percent i n \<le> 99"
proof -
  have "i * 2 ^ 53 \<le> (2 ^ 53 - 1) * n"
  proof -
    from assms(1) have "i * 2 ^ 53 \<le> (n - 1) * 2 ^ 53" by simp
    also have "\<dots> = n * 2 ^ 53 - 2 ^ 53" by (simp add: diff_mult_distrib)
    also have "\<dots> \<le> n * 2 ^ 53 - n" using assms(2) by simp
    also have "\<dots> = (2 ^ 53 - 1) * n" by (simp add: diff_mult_distrib)
    finally show ?thesis .
  qed
  with assms(1) have "val (fl i n) \<le> val (fl (2 ^ 53 - 1) (2 ^ 53))"
    by (intro fl_mono) simp_all
  then have "py_percent i n \<le> py_int (times_100 (fl (2 ^ 53 - 1) (2 ^ 53)))"
    unfolding py_percent_def true_divide_def by (intro py_int_mono times_100_mono)
  then show ?thesis by (simp only: fl_below_one py_percent_below_one)
qed

lemma fl_hundredth: "fl 1 100 = (5764607523034235, 59)"
proof -
  have "fl 1 100 = (rne (1 * 2 ^ 59) 100, 59)"
    by (rule fl_eqI) simp_all
  then show ?thesis by (simp add: rne_def)
qed

lemma py_percent_hundredth: "py_int (times_100 (5764607523034235, 59)) = 1"
proof -
  have "fl (5764607523034235 * 100) (2 ^ 59) = (rne (5764607523034235 * 100 * 2 ^ 52) (2 ^ 59), 52)"
    by (rule fl_eqI) simp_all
  then show ?thesis by (simp add: times_100_def py_int_def rne_def)
qed

lemma py_percent_ge_1:
  assumes "0 < n" and "n \<le> 100 * i"
  shows "1 \<le> py_percent i n"
proof -
  from assms have "val (fl 1 100) \<le> val (fl i n)"
    by (intro fl_mono) simp_all
  then have "py_int (times_100 (fl 1 100)) \<le> py_percent i n"
    unfolding py_percent_def true_divide_def by (intro py_int_mono times_100_mono)
  then show ?thesis by (simp only: fl_hundredth py_percent_hundredth)
qed

text \<open>
  Evaluating the percentage at a given index: with the two shifts at hand, the conditions
  are plain arithmetic.
\<close>

lemma py_percent_eqI:
  assumes "0 < i"
    and "2 ^ 52 * n \<le> i * 2 ^ s" and "s = 0 \<or> i * 2 ^ (s - 1) < 2 ^ 52 * n"
    and "m = rne (i * 2 ^ s) n"
    and "2 ^ 52 * 2 ^ s \<le> m * 100 * 2 ^ t" and "t = 0 \<or> m * 100 * 2 ^ (t - 1) < 2 ^ 52 * 2 ^ s"
    and "0 < m"
  shows "py_percent i n = int (rne (m * 100 * 2 ^ t) (2 ^ s) div 2 ^ t)"
proof -
  have a: "true_divide i n = (m, s)"
    unfolding true_divide_def assms(4) using assms(1-3) by (rule fl_eqI)
  have "fl (m * 100) (2 ^ s) = (rne (m * 100 * 2 ^ t) (2 ^ s), t)"
    using assms(5-7) by (intro fl_eqI) simp_all
  then show ?thesis by (simp add: py_percent_def a times_100_def py_int_def)
qed

lemma py_percent_27_50: "py_percent 27 50 = 54"
  by (rule trans [OF py_percent_eqI [where s = 53 and t = 47, OF _ _ _ refl]])
     (simp_all add: rne_def)

lemma py_percent_28_50: "py_percent 28 50 = 56"
  by (rule trans [OF py_percent_eqI [where s = 53 and t = 47, OF _ _ _ refl]])
     (simp_all add: rne_def)

lemma py_percent_29_50: "py_percent 29 50 = 57"
  by (rule trans [OF py_percent_eqI [where s = 53 and t = 47, OF _ _ _ refl]])
     (simp_all add: rne_def)

lemma py_percent_1_3: "py_percent 1 3 = 33"
  by (rule trans [OF py_percent_eqI [where s = 54 and t = 47, OF _ _ _ refl]])
     (simp_all add: rne_def)

lemma py_percent_199_20000: "py_percent 199 20000 = 0"
  by (rule trans [OF py_percent_eqI [where s = 59 and t = 53, OF _ _ _ refl]])
     (simp_all add: rne_def)

section \<open>Properties of the batch runner\<close>

text \<open>
  C9. For the empty channel sequence the runner returns at once and leaves everything as it
  was: no call of the progress sink is added and storage is not written.
\<close>

theorem run_batch_check_empty:
  "run_batch_check e w [] concurrency source task_id = (Returns, w)
   \<and> sink (snd (run_batch_check e w [] concurrency source task_id)) = sink w
   \<and> store (snd (run_batch_check e w [] concurrency source task_id)) = store w"
  by (simp add: run_batch_check_def)

text \<open>
  What one task does to the state: storage is untouched, and the sink and the attribute
  change as the condition says.
\<close>

lemma report_progress_effect:
  "report_progress e task_id n w i ch = (w', x) \<Longrightarrow>
   store w' = store w
   \<and> sink w' = sink w @
        (if py_percent i n = 0 \<or> py_percent i n = 100
            \<or> py_percent i n - last_reported task_id w \<ge> 2
         then [\<lparr>rep_task_id = task_id, rep_progress = py_percent i n,
                rep_message = progress_message i n ch\<rparr>]
         else [])
   \<and> last_reported task_id w' =
        (if py_percent i n = 0 \<or> py_percent i n = 100
            \<or> py_percent i n - last_reported task_id w \<ge> 2
         then py_percent i n else last_reported task_id w)"
  by (auto simp: report_progress_def last_reported_def Let_def split: if_splits)

lemma bounded_check_effect:
  "bounded_check e task_id c n w i ch = (w', t) \<Longrightarrow>
   store w' = store w
   \<and> sink w' = sink w @
        (if py_percent i n = 0 \<or> py_percent i n = 100
            \<or> py_percent i n - last_reported task_id w \<ge> 2
         then [\<lparr>rep_task_id = task_id, rep_progress = py_percent i n,
                rep_message = progress_message i n ch\<rparr>]
         else [])
   \<and> last_reported task_id w' =
        (if py_percent i n = 0 \<or> py_percent i n = 100
            \<or> py_percent i n - last_reported task_id w \<ge> 2
         then py_percent i n else last_reported task_id w)"
  unfolding bounded_check_def
  by (cases "report_progress e task_id n w i ch")
     (auto dest!: report_progress_effect split: option.splits)

lemma run_tasks_store:
  "run_tasks e task_id c n w i chs = (w', ts) \<Longrightarrow> store w' = store w"
proof (induction chs arbitrary: w i w' ts)
  case Nil
  then show ?case by simp
next
  case (Cons ch chs)
  obtain w1 t where b: "bounded_check e task_id c n w i ch = (w1, t)" by force
  obtain w2 ts2 where r: "run_tasks e task_id c n w1 (Suc i) chs = (w2, ts2)" by force
  from Cons.prems b r have "w' = w2" by simp
  with Cons.IH [OF r] bounded_check_effect [OF b] show ?case by simp
qed

lemma run_tasks_sink:
  "run_tasks e task_id c n w i chs = (w', ts) \<Longrightarrow>
   \<exists>new. sink w' = sink w @ new
     \<and> map rep_progress new
         = emitted (last_reported task_id w) (map (\<lambda>j. py_percent j n) [i..<i + length chs])"
proof (induction chs arbitrary: w i w' ts)
  case Nil
  then show ?case by simp
next
  case (Cons ch chs)
  obtain w1 t where b: "bounded_check e task_id c n w i ch = (w1, t)" by force
  obtain w2 ts2 where r: "run_tasks e task_id c n w1 (Suc i) chs = (w2, ts2)" by force
  from Cons.prems b r have w': "w' = w2" by simp
  from Cons.IH [OF r] obtain new where
    new: "sink w2 = sink w1 @ new"
      "map rep_progress new
         = emitted (last_reported task_id w1) (map (\<lambda>j. py_percent j n) [Suc i..<Suc i + length chs])"
    by blast
  have upt: "[i..<i + length (ch # chs)] = i # [Suc i..<Suc i + length chs]"
    by (subst upt_rec) simp
  from bounded_check_effect [OF b] new w' show ?case
    unfolding upt by (auto split: if_splits)
qed

lemma run_tasks_append:
  "run_tasks e task_id c n w i (xs @ ys) =
     (case run_tasks e task_id c n w i xs of
        (w1, ts) \<Rightarrow>
          (case run_tasks e task_id c n w1 (i + length xs) ys of
             (w2, ts') \<Rightarrow> (w2, ts @ ts')))"
  by (induction xs arbitrary: w i) (auto split: prod.splits)

lemma emitted_sorted: "sorted ps \<Longrightarrow> sorted (emitted l ps) \<and> set (emitted l ps) \<subseteq> set ps"
proof (induction ps arbitrary: l)
  case Nil
  then show ?case by simp
next
  case (Cons p ps)
  then have "sorted ps" by simp
  from Cons.IH [OF this] Cons.prems show ?case by auto
qed

lemma percents_sorted: "0 < n \<Longrightarrow> sorted (map (\<lambda>j. py_percent j n) [i..<k])"
  by (auto simp: sorted_iff_nth_mono intro: py_percent_mono)

lemma emitted_count:
  "sorted ps \<Longrightarrow> \<forall>p \<in> set ps. l \<le> p \<and> p \<le> 99 \<Longrightarrow> 0 \<le> l \<and> l \<le> 99 \<Longrightarrow>
   int (length (emitted l ps)) \<le> int (length (filter (\<lambda>p. p = 0) ps)) + (99 - l) div 2"
proof (induction ps arbitrary: l)
  case Nil
  then show ?case by simp
next
  case (Cons p ps)
  from Cons.prems have sorted: "sorted ps" and lp: "l \<le> p" and p99: "p \<le> 99"
    and rest: "\<forall>q \<in> set ps. p \<le> q \<and> q \<le> 99" by auto
  show ?case
  proof (cases "p = 0 \<or> p = 100 \<or> p - l \<ge> 2")
    case True
    from lp p99 Cons.prems(3) have p0: "0 \<le> p \<and> p \<le> 99" by simp
    from Cons.IH [OF sorted rest p0]
    have ih: "int (length (emitted p ps)) \<le> int (length (filter (\<lambda>p. p = 0) ps)) + (99 - p) div 2" .
    show ?thesis
    proof (cases "p = 0")
      case True
      with lp Cons.prems(3) have "l = 0" by simp
      with True ih show ?thesis by simp
    next
      case False
      with True p99 have "p - l \<ge> 2" by simp
      then have "(99 - p) div 2 + 1 \<le> (99 - l) div 2" by linarith
      with False True ih show ?thesis by simp
    qed
  next
    case False
    from Cons.prems lp rest have "\<forall>q \<in> set ps. l \<le> q \<and> q \<le> 99" by auto
    from Cons.IH [OF sorted this Cons.prems(3)] False show ?thesis by simp
  qed
qed

lemma emitted_zeros: "emitted l (replicate k 0 @ ps) = replicate k 0 @ emitted (if k = 0 then l else 0) ps"
  by (induction k arbitrary: l) auto


lemma run_batch_check_sink:
  "sink (snd (run_batch_check e w channels c source task_id)) =
     (if channels = [] \<or> c < 0 then sink w
      else sink (fst (run_tasks e task_id c (length channels) w 0 channels)))"
  by (auto simp: run_batch_check_def split: prod.splits gathered.splits)

lemma run_batch_check_store_zero:
  "store (snd (run_batch_check e w channels c source task_id)) 0 = store w 0"
  by (auto simp: run_batch_check_def write_results_zero
           split: prod.splits gathered.splits dest: run_tasks_store)






text \<open>
  C10. A result whose channel identifier is \<open>None\<close> or 0 changes nothing in storage, so
  the writeback loop, and with it a whole batch, leaves a channel with identifier 0 as it
  was, also when it is in storage.
\<close>

theorem falsy_channel_id_skipped:
  "write_result source now db (res\<lparr>ch_id := None\<rparr>) = db
   \<and> write_result source now db (res\<lparr>ch_id := Some 0\<rparr>) = db
   \<and> write_results source clock k db results 0 = db 0
   \<and> store (snd (run_batch_check e w channels concurrency source task_id)) 0 = store w 0"
  by (simp add: write_result_def write_results_zero run_batch_check_store_zero)

lemma run_tasks_progress_sorted:
  assumes "0 < n"
  shows "sorted (map rep_progress (drop (length (sink w)) (sink (fst (run_tasks e task_id c n w i chs)))))"
proof -
  obtain w' ts where r: "run_tasks e task_id c n w i chs = (w', ts)" by force
  from run_tasks_sink [OF r] obtain new where new: "sink w' = sink w @ new"
    "map rep_progress new = emitted (last_reported task_id w) (map (\<lambda>j. py_percent j n) [i..<i + length chs])"
    by blast
  from emitted_sorted [OF percents_sorted [OF assms]] new r show ?thesis by simp
qed

text \<open>
  C7. The percentages of the reports that a batch adds to the progress sink, in the order
  of the calls, never decrease.
\<close>

theorem progress_nondecreasing:
  "sorted (map rep_progress
     (drop (length (sink w)) (sink (snd (run_batch_check e w channels concurrency source task_id)))))"
proof (cases "channels = [] \<or> concurrency < 0")
  case True
  then show ?thesis by (simp add: run_batch_check_sink)
next
  case False
  then have "0 < length channels" by simp
  from run_tasks_progress_sorted [OF this] False show ?thesis
    by (simp add: run_batch_check_sink)
qed

lemma bounded_check_inv:
  assumes "bounded_check e task_id c n w i ch = (w', t)"
    and "i = 0 \<or> (sink w \<noteq> [] \<and> last_reported task_id w = rep_progress (last (sink w)))"
  shows "sink w' \<noteq> [] \<and> last_reported task_id w' = rep_progress (last (sink w'))"
  using bounded_check_effect [OF assms(1)] assms(2)
  by (auto simp: py_percent_zero)

lemma run_tasks_inv:
  "run_tasks e task_id c n w i chs = (w', ts) \<Longrightarrow>
   sink w \<noteq> [] \<and> last_reported task_id w = rep_progress (last (sink w)) \<Longrightarrow>
   sink w' \<noteq> [] \<and> last_reported task_id w' = rep_progress (last (sink w'))"
proof (induction chs arbitrary: w i w' ts)
  case Nil
  then show ?case by simp
next
  case (Cons ch chs)
  obtain w1 t where b: "bounded_check e task_id c n w i ch = (w1, t)" by force
  obtain w2 ts2 where r: "run_tasks e task_id c n w1 (Suc i) chs = (w2, ts2)" by force
  from Cons.prems(1) b r have "w' = w2" by simp
  with Cons.IH [OF r] bounded_check_inv [OF b] Cons.prems(2) show ?case by simp
qed

lemma run_tasks_from_start_inv:
  assumes "run_tasks e task_id c n w 0 chs = (w', ts)" and "chs \<noteq> []"
  shows "sink w' \<noteq> [] \<and> last_reported task_id w' = rep_progress (last (sink w'))"
proof -
  from assms(2) obtain ch rest where chs: "chs = ch # rest" by (cases chs) auto
  obtain w1 t where b: "bounded_check e task_id c n w 0 ch = (w1, t)" by force
  obtain w2 ts2 where r: "run_tasks e task_id c n w1 (Suc 0) rest = (w2, ts2)" by force
  from assms(1) chs b r have "w' = w2" by simp
  with run_tasks_inv [OF r] bounded_check_inv [OF b] show ?thesis by simp
qed

lemma run_tasks_step:
  assumes "i < length channels"
  shows "fst (run_tasks e task_id c n w 0 (take (Suc i) channels)) =
           fst (bounded_check e task_id c n
                  (fst (run_tasks e task_id c n w 0 (take i channels))) i (channels ! i))"
proof -
  from assms have "take (Suc i) channels = take i channels @ [channels ! i]"
    by (rule take_Suc_conv_app_nth)
  moreover from assms have "length (take i channels) = i" by simp
  ultimately show ?thesis
    by (simp add: run_tasks_append split: prod.splits)
qed

lemma report_rule:
  assumes "i < length channels"
  shows "sink (fst (run_tasks e task_id c n w 0 (take (Suc i) channels))) =
           sink (fst (run_tasks e task_id c n w 0 (take i channels))) @
             (if py_percent i n = 0 \<or> py_percent i n = 100
                 \<or> (0 < i \<and> 2 \<le> py_percent i n
                       - rep_progress (last (sink (fst (run_tasks e task_id c n w 0 (take i channels))))))
              then [\<lparr>rep_task_id = task_id, rep_progress = py_percent i n,
                     rep_message = progress_message i n (channels ! i)\<rparr>]
              else [])"
proof -
  let ?before = "fst (run_tasks e task_id c n w 0 (take i channels))"
  obtain w' t where b: "bounded_check e task_id c n ?before i (channels ! i) = (w', t)" by force
  have after: "fst (run_tasks e task_id c n w 0 (take (Suc i) channels)) = w'"
    by (simp add: run_tasks_step [OF assms] b)
  show ?thesis
  proof (cases "i = 0")
    case True
    with bounded_check_effect [OF b] show ?thesis
      unfolding after by (simp add: py_percent_zero)
  next
    case False
    obtain ts where r: "run_tasks e task_id c n w 0 (take i channels) = (?before, ts)"
      by (cases "run_tasks e task_id c n w 0 (take i channels)") simp
    from False assms have "take i channels \<noteq> []" by auto
    from run_tasks_from_start_inv [OF r this]
    have "last_reported task_id ?before = rep_progress (last (sink ?before))" by simp
    with bounded_check_effect [OF b] False show ?thesis
      unfolding after by simp
  qed
qed

lemma zeros_bound:
  assumes "0 < n"
  shows "length (filter (\<lambda>p. p = 0) (map (\<lambda>j. py_percent j n) [0..<n])) \<le> (n + 99) div 100"
proof -
  have "length (filter (\<lambda>p. p = 0) (map (\<lambda>j. py_percent j n) [0..<n]))
          = length (filter (\<lambda>j. py_percent j n = 0) [0..<n])"
    by (simp add: filter_map comp_def)
  also have "\<dots> = card (set (filter (\<lambda>j. py_percent j n = 0) [0..<n]))"
    by (rule distinct_card [symmetric]) (rule distinct_filter, rule distinct_upt)
  also have "\<dots> \<le> card {..<(n + 99) div 100}"
  proof (rule card_mono)
    show "finite {..<(n + 99) div 100}" by simp
    show "set (filter (\<lambda>j. py_percent j n = 0) [0..<n]) \<subseteq> {..<(n + 99) div 100}"
    proof
      fix j assume "j \<in> set (filter (\<lambda>j. py_percent j n = 0) [0..<n])"
      then have "py_percent j n = 0" by simp
      with py_percent_ge_1 [OF assms, of j] have "100 * j < n" by (cases "n \<le> 100 * j") auto
      then have "j < (n + 99) div 100" by linarith
      then show "j \<in> {..<(n + 99) div 100}" by simp
    qed
  qed
  finally show ?thesis by simp
qed

lemma emitted_zero_count:
  "length (filter (\<lambda>p. p = 0) (emitted l ps)) = length (filter (\<lambda>p. p = 0) ps)"
  by (induction ps arbitrary: l) auto

lemma batch_emitted_count:
  assumes "0 < n" and "n \<le> 2 ^ 53"
  shows "length (emitted l (map (\<lambda>j. py_percent j n) [0..<n]))
           \<le> length (filter (\<lambda>p. p = 0) (map (\<lambda>j. py_percent j n) [0..<n])) + 49"
proof -
  let ?pc = "\<lambda>j. py_percent j n"
  from assms(1) have split: "map ?pc [0..<n] = 0 # map ?pc [Suc 0..<n]"
    by (subst upt_rec) (simp add: py_percent_zero)
  have "sorted (map ?pc [Suc 0..<n])" using assms(1) by (rule percents_sorted)
  moreover have "\<forall>p \<in> set (map ?pc [Suc 0..<n]). 0 \<le> p \<and> p \<le> 99"
    using assms(2) by (auto simp: py_percent_nonneg py_percent_le_99)
  ultimately have "int (length (emitted 0 (map ?pc [Suc 0..<n])))
      \<le> int (length (filter (\<lambda>p. p = 0) (map ?pc [Suc 0..<n]))) + (99 - 0) div 2"
    by (intro emitted_count) simp_all
  then show ?thesis unfolding split by simp
qed

lemma run_batch_check_reports:
  assumes "channels \<noteq> []" and "0 \<le> c"
  shows "\<exists>new. sink (snd (run_batch_check e w channels c source task_id)) = sink w @ new
           \<and> map rep_progress new
               = emitted (last_reported task_id w)
                   (map (\<lambda>j. py_percent j (length channels)) [0..<length channels])"
proof -
  obtain w' ts where r: "run_tasks e task_id c (length channels) w 0 channels = (w', ts)"
    by force
  from run_tasks_sink [OF r] assms r show ?thesis
    by (simp add: run_batch_check_sink)
qed

text \<open>
  C2, as the code has it. The percentage of task \<open>i\<close> is \<open>int((i / total) * 100)\<close> in
  binary64 arithmetic. Running the first \<open>i + 1\<close> tasks adds, to the reports of the first
  \<open>i\<close> tasks, a report for task \<open>i\<close> exactly when its percentage is 0, is 100, or is at
  least 2 above the percentage of the last report so far (task 0 has percentage 0 and always
  reports). For a batch of at most \<open>2 ^ 53\<close> channels, at most 49 reports of the batch have
  a percentage other than 0, and the batch adds at most 49 reports plus one for every
  hundred channels, rounded up: every task with percentage 0 reports.
\<close>

theorem progress_report_rule:
  assumes "i < length channels" and "0 \<le> concurrency"
  shows "sink (fst (run_tasks e task_id concurrency (length channels) w 0 (take (Suc i) channels))) =
           sink (fst (run_tasks e task_id concurrency (length channels) w 0 (take i channels))) @
             (if py_percent i (length channels) = 0 \<or> py_percent i (length channels) = 100
                 \<or> (0 < i \<and> 2 \<le> py_percent i (length channels)
                       - rep_progress (last (sink (fst (run_tasks e task_id concurrency
                                          (length channels) w 0 (take i channels))))))
              then [\<lparr>rep_task_id = task_id, rep_progress = py_percent i (length channels),
                     rep_message = progress_message i (length channels) (channels ! i)\<rparr>]
              else [])
         \<and> (length channels \<le> 2 ^ 53 \<longrightarrow>
              length (filter (\<lambda>r. rep_progress r \<noteq> 0)
                        (drop (length (sink w))
                           (sink (snd (run_batch_check e w channels concurrency source task_id)))))
                \<le> 49
              \<and> length (sink (snd (run_batch_check e w channels concurrency source task_id)))
                  \<le> length (sink w) + 49 + (length channels + 99) div 100)"
proof (intro conjI impI)
  show "sink (fst (run_tasks e task_id concurrency (length channels) w 0 (take (Suc i) channels))) =
           sink (fst (run_tasks e task_id concurrency (length channels) w 0 (take i channels))) @
             (if py_percent i (length channels) = 0 \<or> py_percent i (length channels) = 100
                 \<or> (0 < i \<and> 2 \<le> py_percent i (length channels)
                       - rep_progress (last (sink (fst (run_tasks e task_id concurrency
                                          (length channels) w 0 (take i channels))))))
              then [\<lparr>rep_task_id = task_id, rep_progress = py_percent i (length channels),
                     rep_message = progress_message i (length channels) (channels ! i)\<rparr>]
              else [])"
    using assms(1) by (rule report_rule)
next
  assume small: "length channels \<le> 2 ^ 53"
  from assms(1) have ne: "channels \<noteq> []" and pos: "0 < length channels" by auto
  let ?ps = "map (\<lambda>j. py_percent j (length channels)) [0..<length channels]"
  from run_batch_check_reports [OF ne assms(2)] obtain new where
    new: "sink (snd (run_batch_check e w channels concurrency source task_id)) = sink w @ new"
      "map rep_progress new = emitted (last_reported task_id w) ?ps"
    by blast
  have len: "length new = length (emitted (last_reported task_id w) ?ps)"
    using new(2) by (metis length_map)
  have count: "length new \<le> length (filter (\<lambda>p. p = 0) ?ps) + 49"
    unfolding len using pos small by (rule batch_emitted_count)
  have "length (filter (\<lambda>r. rep_progress r \<noteq> 0) new)
          = length (filter (\<lambda>p. p \<noteq> 0) (map rep_progress new))"
    by (simp add: filter_map comp_def)
  also have "\<dots> + length (filter (\<lambda>p. p = 0) (map rep_progress new)) = length new"
    using sum_length_filter_compl [of "\<lambda>p. p = 0" "map rep_progress new"] by simp
  finally have "length (filter (\<lambda>r. rep_progress r \<noteq> 0) new)
      + length (filter (\<lambda>p. p = 0) ?ps) = length new"
    unfolding new(2) emitted_zero_count .
  with count show "length (filter (\<lambda>r. rep_progress r \<noteq> 0)
                        (drop (length (sink w))
                           (sink (snd (run_batch_check e w channels concurrency source task_id)))))
                \<le> 49"
    unfolding new(1) by simp
  from count zeros_bound [OF pos]
  show "length (sink (snd (run_batch_check e w channels concurrency source task_id)))
          \<le> length (sink w) + 49 + (length channels + 99) div 100"
    unfolding new(1) by simp
qed

lemma length_example_channels: "length example_channels = 3"
  by (simp add: example_channels_def)

theorem progress_report_rule_witness:
  "sink (fst (run_tasks example_env (Some (ascii ''t1'')) 5 3 example_world 0
               (take (Suc 1) example_channels)))
     = [\<lparr>rep_task_id = Some (ascii ''t1''), rep_progress = 0,
         rep_message = progress_message 0 3 (example_channel 1 (ascii ''http://a''))\<rparr>,
        \<lparr>rep_task_id = Some (ascii ''t1''), rep_progress = 33,
         rep_message = progress_message 1 3 (example_channel 2 (ascii ''http://b''))\<rparr>]
   \<and> length (sink (snd (run_batch_check example_env example_world example_channels 5
                          (ascii ''manual'') (Some (ascii ''t1''))))) \<le> 50"
proof -
  have before: "sink (fst (run_tasks example_env (Some (ascii ''t1'')) 5 3 example_world 0
               (take 1 example_channels)))
     = [\<lparr>rep_task_id = Some (ascii ''t1''), rep_progress = 0,
            rep_message = progress_message 0 3 (example_channel 1 (ascii ''http://a''))\<rparr>]"
    by (simp add: example_channels_def bounded_check_def report_progress_def py_percent_zero
          example_world_def example_env_def Let_def)
  have nth: "example_channels ! 1 = example_channel 2 (ascii ''http://b'')"
    by (simp add: example_channels_def)
  have h1: "1 < length example_channels" by (simp add: length_example_channels)
  have h2: "(0::int) \<le> 5" by simp
  note inst = progress_report_rule [OF h1 h2, of example_env "Some (ascii ''t1'')"
         example_world "ascii ''manual''", unfolded length_example_channels]
  from inst have "sink (fst (run_tasks example_env (Some (ascii ''t1'')) 5 3 example_world 0
               (take (Suc 1) example_channels)))
     = [\<lparr>rep_task_id = Some (ascii ''t1''), rep_progress = 0,
         rep_message = progress_message 0 3 (example_channel 1 (ascii ''http://a''))\<rparr>]
       @ (if (33::int) = 0 \<or> (33::int) = 100 \<or> ((0::nat) < 1 \<and> (2::int) \<le> 33 - 0)
          then [\<lparr>rep_task_id = Some (ascii ''t1''), rep_progress = 33,
                 rep_message = progress_message 1 3 (example_channel 2 (ascii ''http://b''))\<rparr>]
          else [])"
    by (simp only: before py_percent_1_3 nth last.simps report.simps if_True if_False
          simp_thms)
  then have first: "sink (fst (run_tasks example_env (Some (ascii ''t1'')) 5 3 example_world 0
               (take (Suc 1) example_channels)))
     = [\<lparr>rep_task_id = Some (ascii ''t1''), rep_progress = 0,
         rep_message = progress_message 0 3 (example_channel 1 (ascii ''http://a''))\<rparr>,
        \<lparr>rep_task_id = Some (ascii ''t1''), rep_progress = 33,
         rep_message = progress_message 1 3 (example_channel 2 (ascii ''http://b''))\<rparr>]"
    by simp
  from inst have "length (sink (snd (run_batch_check example_env example_world example_channels 5
                          (ascii ''manual'') (Some (ascii ''t1'')))))
      \<le> length (sink example_world) + 49 + (3 + 99) div 100"
    by simp
  then have "length (sink (snd (run_batch_check example_env example_world example_channels 5
                          (ascii ''manual'') (Some (ascii ''t1''))))) \<le> 50"
    by (simp add: example_world_def)
  with first show ?thesis by blast
qed

text \<open>The attribute is never above the percentage of the task that ran last.\<close>

lemma bounded_check_last:
  assumes "bounded_check e task_id c n w i ch = (w', t)" and "0 < n"
    and "i = 0 \<or> last_reported task_id w \<le> py_percent (i - 1) n"
  shows "last_reported task_id w' \<le> py_percent i n"
proof (cases "i = 0")
  case True
  with bounded_check_effect [OF assms(1)] show ?thesis by (simp add: py_percent_zero)
next
  case False
  with assms(3) have "last_reported task_id w \<le> py_percent (i - 1) n" by simp
  also have "\<dots> \<le> py_percent i n" using assms(2) by (intro py_percent_mono) simp_all
  finally show ?thesis using bounded_check_effect [OF assms(1)] by (auto split: if_splits)
qed

lemma run_tasks_last:
  "run_tasks e task_id c n w i chs = (w', ts) \<Longrightarrow> 0 < n \<Longrightarrow> chs \<noteq> [] \<Longrightarrow>
   i = 0 \<or> last_reported task_id w \<le> py_percent (i - 1) n \<Longrightarrow>
   last_reported task_id w' \<le> py_percent (i + length chs - 1) n"
proof (induction chs arbitrary: w i w' ts)
  case Nil
  then show ?case by simp
next
  case (Cons ch chs)
  obtain w1 t where b: "bounded_check e task_id c n w i ch = (w1, t)" by force
  obtain w2 ts2 where r: "run_tasks e task_id c n w1 (Suc i) chs = (w2, ts2)" by force
  from Cons.prems(1) b r have w': "w' = w2" by simp
  from bounded_check_last [OF b Cons.prems(2) Cons.prems(4)]
  have l1: "last_reported task_id w1 \<le> py_percent i n" .
  show ?case
  proof (cases "chs = []")
    case True
    with r w' l1 show ?thesis by simp
  next
    case False
    from Cons.IH [OF r Cons.prems(2) False] l1 w' show ?thesis by simp
  qed
qed

lemma skipped_report_at_29_of_50:
  "rep_progress (last (sink (fst (run_tasks example_env (Some (ascii ''t1'')) 5 50 example_world 0
       (replicate 29 (example_channel 1 (ascii ''http://a'')))))))
     = 56
   \<and> sink (fst (run_tasks example_env (Some (ascii ''t1'')) 5 50 example_world 0
          (replicate 30 (example_channel 1 (ascii ''http://a'')))))
     = sink (fst (run_tasks example_env (Some (ascii ''t1'')) 5 50 example_world 0
          (replicate 29 (example_channel 1 (ascii ''http://a'')))))"
proof -
  let ?ch = "example_channel 1 (ascii ''http://a'')"
  let ?run = "\<lambda>k. run_tasks example_env (Some (ascii ''t1'')) 5 50 example_world 0 (replicate k ?ch)"
  let ?last = "last_reported (Some (ascii ''t1''))"
  obtain ts where r28: "?run 28 = (fst (?run 28), ts)" by (cases "?run 28") simp
  have "?last (fst (?run 28)) \<le> py_percent (0 + length (replicate 28 ?ch) - 1) 50"
    by (rule run_tasks_last [OF r28]) simp_all
  then have l28: "?last (fst (?run 28)) \<le> 54" by (simp add: py_percent_27_50)
  obtain w29 t29 where b28: "bounded_check example_env (Some (ascii ''t1'')) 5 50 (fst (?run 28)) 28 ?ch
      = (w29, t29)" by force
  have s28: "fst (?run 29) = w29"
    using run_tasks_step [of 28 "replicate 29 ?ch" example_env "Some (ascii ''t1'')" 5 50 example_world] b28
    by simp
  from bounded_check_effect [OF b28] l28
  have e28: "rep_progress (last (sink w29)) = 56" "?last w29 = 56"
    by (simp_all add: py_percent_28_50)
  obtain w30 t30 where b29: "bounded_check example_env (Some (ascii ''t1'')) 5 50 w29 29 ?ch
      = (w30, t30)" by force
  have s29: "fst (?run 30) = w30"
    using run_tasks_step [of 29 "replicate 30 ?ch" example_env "Some (ascii ''t1'')" 5 50 example_world] b29 s28
    by simp
  from bounded_check_effect [OF b29] e28(2)
  have "sink w30 = sink w29" by (simp add: py_percent_29_50)
  with e28(1) show ?thesis unfolding s28 s29 by simp
qed

lemma many_zero_reports:
  assumes "0 < k" and "k \<le> length channels" and "0 \<le> c"
    and "py_percent (k - 1) (length channels) = 0"
  shows "length (sink w) + k \<le> length (sink (snd (run_batch_check e w channels c source task_id)))"
proof -
  let ?n = "length channels"
  let ?pc = "\<lambda>j. py_percent j ?n"
  from assms(1,2) have ne: "channels \<noteq> []" and pos: "0 < ?n" by auto
  have zero: "?pc j = 0" if "j < k" for j
  proof -
    from that have "?pc j \<le> ?pc (k - 1)" by (intro py_percent_mono pos) simp
    with assms(4) py_percent_nonneg [of j ?n] show ?thesis by simp
  qed
  have "[0..<?n] = [0..<k] @ [k..<?n]"
    using assms(2) by (metis le_add_diff_inverse upt_add_eq_append zero_le)
  then have "map ?pc [0..<?n] = map ?pc [0..<k] @ map ?pc [k..<?n]" by simp
  also have "map ?pc [0..<k] = map (\<lambda>j. 0) [0..<k]" using zero by simp
  also have "\<dots> = replicate k 0" by (simp add: map_replicate_const)
  finally have ps: "map ?pc [0..<?n] = replicate k 0 @ map ?pc [k..<?n]" .
  from run_batch_check_reports [OF ne assms(3)] obtain new where
    new: "sink (snd (run_batch_check e w channels c source task_id)) = sink w @ new"
      "map rep_progress new = emitted (last_reported task_id w) (map ?pc [0..<?n])"
    by blast
  have "length new = length (emitted (last_reported task_id w) (map ?pc [0..<?n]))"
    using new(2) by (metis length_map)
  then have "k \<le> length new" unfolding ps emitted_zeros by simp
  with new(1) show ?thesis by simp
qed

text \<open>
  The claim as the spec words it fails in two ways. The percentage is not the exact floor:
  for index 29 of 50 the code computes 57 where the floor is 58, and in a batch of 50
  channels the task of index 29 adds no report although the last report before it was at
  56. And the number of reports is not bounded: a batch of 20000 channels makes at least
  200 reports.
\<close>

theorem progress_report_counterexample:
  "py_percent 29 50 = 57 \<and> (29 * 100) div 50 = (58::nat)
   \<and> rep_progress (last (sink (fst (run_tasks example_env (Some (ascii ''t1'')) 5 50 example_world 0
         (replicate 29 (example_channel 1 (ascii ''http://a'')))))))
       = 56
   \<and> sink (fst (run_tasks example_env (Some (ascii ''t1'')) 5 50 example_world 0
          (replicate 30 (example_channel 1 (ascii ''http://a'')))))
       = sink (fst (run_tasks example_env (Some (ascii ''t1'')) 5 50 example_world 0
          (replicate 29 (example_channel 1 (ascii ''http://a'')))))
   \<and> 200 \<le> length (sink (snd (run_batch_check example_env example_world
                (replicate 20000 (example_channel 1 (ascii ''http://a'')))
                5 (ascii ''manual'') (Some (ascii ''t1'')))))"
proof -
  have "length (sink example_world) + 200
      \<le> length (sink (snd (run_batch_check example_env example_world
                (replicate 20000 (example_channel 1 (ascii ''http://a'')))
                5 (ascii ''manual'') (Some (ascii ''t1'')))))"
    by (rule many_zero_reports) (simp_all add: py_percent_199_20000)
  then have "200 \<le> length (sink (snd (run_batch_check example_env example_world
                (replicate 20000 (example_channel 1 (ascii ''http://a'')))
                5 (ascii ''manual'') (Some (ascii ''t1'')))))"
    by (simp add: example_world_def)
  with skipped_report_at_29_of_50 py_percent_29_50 show ?thesis by simp
qed

section \<open>Properties of the permit\<close>

lemma count_update:
  "i < length xs \<Longrightarrow>
   length (filter P (xs[i := y])) + (if P (xs ! i) then 1 else 0)
     = length (filter P xs) + (if P y then 1 else 0)"
proof (induction xs arbitrary: i)
  case Nil
  then show ?case by simp
next
  case (Cons x xs)
  then show ?case by (cases i) auto
qed

lemma step_invariant:
  assumes "step s s'"
  shows "in_probe s' + permits s' = in_probe s + permits s \<and> length (phases s') = length (phases s)"
  using assms
proof cases
  case (reported i)
  with count_update [of i "phases s" "\<lambda>p. p = InProbe" AwaitingPermit]
  show ?thesis by (simp add: in_probe_def)
next
  case (report_raised i)
  with count_update [of i "phases s" "\<lambda>p. p = InProbe" Ended]
  show ?thesis by (simp add: in_probe_def)
next
  case (acquired i)
  with count_update [of i "phases s" "\<lambda>p. p = InProbe" InProbe]
  show ?thesis by (simp add: in_probe_def)
next
  case (released i)
  with count_update [of i "phases s" "\<lambda>p. p = InProbe" Ended]
  show ?thesis by (simp add: in_probe_def)
qed

lemma reachable_invariant:
  "reachable k n s \<Longrightarrow> in_probe s + permits s = k \<and> length (phases s) = n"
proof (induction rule: reachable.induct)
  case initial
  show ?case by (simp add: in_probe_def)
next
  case (later s s')
  with step_invariant [OF later.hyps(2)] show ?case by simp
qed

text \<open>
  C6. Start with \<open>k\<close> permits, \<open>k \<ge> 1\<close>, and any number of tasks. In every state the
  tasks can reach, in whatever order they move, the probes running and the permits left add
  up to \<open>k\<close>; so no more than \<open>k\<close> probes run at once.
\<close>

theorem at_most_k_probes:
  assumes "1 \<le> k" and "reachable k n s"
  shows "in_probe s \<le> k \<and> in_probe s + permits s = k"
  using reachable_invariant [OF assms(2)] by simp

theorem at_most_k_probes_witness:
  "reachable 1 2 \<lparr>permits = 0, phases = [InProbe, AwaitingPermit]\<rparr>
   \<and> in_probe \<lparr>permits = 0, phases = [InProbe, AwaitingPermit]\<rparr> \<le> 1"
proof -
  have r0: "reachable 1 2 \<lparr>permits = 1, phases = [Started, Started]\<rparr>"
    using initial [of 1 2] by (simp add: numeral_2_eq_2)
  have "step \<lparr>permits = 1, phases = [Started, Started]\<rparr>
             \<lparr>permits = 1, phases = [AwaitingPermit, Started]\<rparr>"
    using reported [of 0 "\<lparr>permits = 1, phases = [Started, Started]\<rparr>"] by simp
  with r0 have r1: "reachable 1 2 \<lparr>permits = 1, phases = [AwaitingPermit, Started]\<rparr>"
    by (rule later)
  have "step \<lparr>permits = 1, phases = [AwaitingPermit, Started]\<rparr>
             \<lparr>permits = 1, phases = [AwaitingPermit, AwaitingPermit]\<rparr>"
    using reported [of 1 "\<lparr>permits = 1, phases = [AwaitingPermit, Started]\<rparr>"] by simp
  with r1 have r2: "reachable 1 2 \<lparr>permits = 1, phases = [AwaitingPermit, AwaitingPermit]\<rparr>"
    by (rule later)
  have "step \<lparr>permits = 1, phases = [AwaitingPermit, AwaitingPermit]\<rparr>
             \<lparr>permits = 0, phases = [InProbe, AwaitingPermit]\<rparr>"
    using acquired [of 0 "\<lparr>permits = 1, phases = [AwaitingPermit, AwaitingPermit]\<rparr>"] by simp
  with r2 have r3: "reachable 1 2 \<lparr>permits = 0, phases = [InProbe, AwaitingPermit]\<rparr>"
    by (rule later)
  have one: "(1::nat) \<le> 1" by simp
  from at_most_k_probes [OF one r3] r3 show ?thesis by simp
qed

end
